theory Spec2Isabelle
  imports
    Complex_Main
    "HOL-Library.Word"
    "HOL-Library.Signed_Division"
    "HOL-Library.Monad_Syntax"
begin

section \<open>Configuration and data\<close>

text \<open>
  The compile-time constants of \<^verbatim>\<open>host_interface.c\<close> (lines 9 to 13) and its element
  type \<^verbatim>\<open>typedef uint16_t data_t\<close>. C's \<^verbatim>\<open>int\<close> is modelled as \<open>int\<close>: every loop
  counter of the program stays between 0 and its bound, so none of them can wrap.
\<close>

type_synonym data_t = "16 word"

definition VECTOR_SIZE :: int where
  "VECTOR_SIZE = 8"

definition NUM_TESTS :: int where
  "NUM_TESTS = 10000"

definition LARGE_VECTOR_SIZE :: int where
  "LARGE_VECTOR_SIZE = 1024"

definition SIMULATION_MODE :: int where
  "SIMULATION_MODE = 1"

section \<open>The world the program runs in\<close>

text \<open>
  The kernels receive raw pointers, so vectors live in an explicit store. An address
  counts \<^verbatim>\<open>data_t\<close> cells; \<open>p + k\<close> is the address of \<^verbatim>\<open>p[k]\<close>. The world holds
  \<^item> \<open>mem\<close>: the contents of every cell (a fresh allocation keeps whatever was there, as
    \<^verbatim>\<open>malloc\<close> does not initialise);
  \<^item> \<open>live\<close>: the allocated blocks, as (base, number of cells), newest first;
  \<^item> \<open>brk\<close>: the first address the allocator has not handed out yet;
  \<^item> \<open>slept\<close>: the microseconds requested from \<^verbatim>\<open>usleep\<close> so far;
  \<^item> \<open>ticks\<close>: how many times the monotonic clock has been read;
  \<^item> \<open>stdout\<close>: the lines printed so far, oldest first.
  A run that touches a cell outside every live block, or frees a pointer that is not the base
  of a live block, has no defined behaviour in C; the model returns \<open>None\<close> there.
\<close>

type_synonym addr = nat

text \<open>
  One value per \<^verbatim>\<open>printf\<close> call of the program. Fixed text is kept as text; a conversion
  keeps the value handed to it. \<open>Speedup s h\<close> stands for the line that prints the
  floating-point quotient \<^verbatim>\<open>sw_time / hw_time\<close>: both operands are kept and the quotient
  is not evaluated.
\<close>

datatype line =
    Text string
  | RunningStandard int
  | RunningLarge int
  | Mismatch int int int
  | VectorSize int
  | HardwareTime real
  | SoftwareTime real
  | Speedup real real
  | Results bool
  | ScalingRow int real

record world =
  mem :: "addr \<Rightarrow> data_t"
  live :: "(addr \<times> nat) list"
  brk :: addr
  slept :: nat
  ticks :: nat
  stdout :: "line list"

definition valid :: "world \<Rightarrow> addr \<Rightarrow> bool" where
  "valid w p = list_ex (\<lambda>(base, len). base \<le> p \<and> p < base + len) (live w)"

definition load :: "world \<Rightarrow> addr \<Rightarrow> data_t option" where
  "load w p = (if valid w p then Some (mem w p) else None)"

definition store :: "world \<Rightarrow> addr \<Rightarrow> data_t \<Rightarrow> world option" where
  "store w p v = (if valid w p then Some (w\<lparr>mem := (mem w)(p := v)\<rparr>) else None)"

definition printf :: "world \<Rightarrow> line \<Rightarrow> world" where
  "printf w l = w\<lparr>stdout := stdout w @ [l]\<rparr>"

definition usleep :: "world \<Rightarrow> nat \<Rightarrow> world" where
  "usleep w us = w\<lparr>slept := slept w + us\<rparr>"

text \<open>
  \<^verbatim>\<open>malloc\<close> is modelled as a bump allocator that always succeeds: the program does not
  check for a null result, and what it does after a failed allocation is not defined. Each
  block is followed by one cell that is never handed out, so distinct blocks have distinct
  bases, also when they are empty.
\<close>

definition malloc :: "world \<Rightarrow> nat \<Rightarrow> addr \<times> world" where
  "malloc w n = (brk w, w\<lparr>live := (brk w, n) # live w, brk := brk w + n + 1\<rparr>)"

definition free :: "world \<Rightarrow> addr \<Rightarrow> world option" where
  "free w p =
     (case find (\<lambda>(base, len). base = p) (live w) of
        None \<Rightarrow> None
      | Some blk \<Rightarrow> Some (w\<lparr>live := remove1 blk (live w)\<rparr>))"

section \<open>The multiply kernels\<close>

text \<open>
  \<^verbatim>\<open>result[i] = vector_a[i] * vector_b[i]\<close> on \<^verbatim>\<open>uint16_t\<close>: both operands are promoted to
  the 32-bit \<^verbatim>\<open>int\<close>, multiplied there, and the product is converted back to 16 bits.
  The 32-bit product is taken modulo \<open>2 ^ 32\<close> (two's complement), which is what the
  \<^verbatim>\<open>int\<close> multiplication does on the machines the program is built for; \<open>mul_in_int_range\<close>
  says when the product fits \<^verbatim>\<open>int\<close> and no such reduction takes place.
\<close>

definition mul_data_t :: "data_t \<Rightarrow> data_t \<Rightarrow> data_t" where
  "mul_data_t x y = ucast ((ucast x :: 32 word) * (ucast y :: 32 word))"

definition mul_in_int_range :: "data_t \<Rightarrow> data_t \<Rightarrow> bool" where
  "mul_in_int_range x y = (unat x * unat y < 2 ^ 31)"

text \<open>The loop of lines 28 to 31, in the branch taken when \<^verbatim>\<open>SIMULATION_MODE\<close> is set.\<close>

function hw_sim_loop :: "world \<Rightarrow> addr \<Rightarrow> addr \<Rightarrow> addr \<Rightarrow> int \<Rightarrow> int \<Rightarrow> world option" where
  "hw_sim_loop w vector_a vector_b result size' i =
     (if i < size' then
        (case load w (vector_a + nat i) of
           None \<Rightarrow> None
         | Some x \<Rightarrow>
        (case load w (vector_b + nat i) of
           None \<Rightarrow> None
         | Some y \<Rightarrow>
        (case store w (result + nat i) (mul_data_t x y) of
           None \<Rightarrow> None
         | Some w' \<Rightarrow> hw_sim_loop w' vector_a vector_b result size' (i + 1))))
      else Some w)"
  by pat_completeness auto
termination
  by (relation "measure (\<lambda>(w, a, b, r, n, i). nat (n - i))") auto

text \<open>The loop of lines 38 to 41, in the branch for actual hardware.\<close>

function hw_fpga_loop :: "world \<Rightarrow> addr \<Rightarrow> addr \<Rightarrow> addr \<Rightarrow> int \<Rightarrow> int \<Rightarrow> world option" where
  "hw_fpga_loop w vector_a vector_b result size' i =
     (if i < size' then
        (case load w (vector_a + nat i) of
           None \<Rightarrow> None
         | Some x \<Rightarrow>
        (case load w (vector_b + nat i) of
           None \<Rightarrow> None
         | Some y \<Rightarrow>
        (case store w (result + nat i) (mul_data_t x y) of
           None \<Rightarrow> None
         | Some w' \<Rightarrow> hw_fpga_loop w' vector_a vector_b result size' (i + 1))))
      else Some w)"
  by pat_completeness auto
termination
  by (relation "measure (\<lambda>(w, a, b, r, n, i). nat (n - i))") auto

text \<open>
  \<^verbatim>\<open>hardware_vector_multiply\<close> (lines 18 to 43). The macro \<^verbatim>\<open>SIMULATION_MODE\<close> is a
  parameter here, so that both branches of the \<^verbatim>\<open>if\<close> can be talked about; the program
  passes the constant.
\<close>

definition hardware_vector_multiply ::
    "int \<Rightarrow> world \<Rightarrow> addr \<Rightarrow> addr \<Rightarrow> addr \<Rightarrow> int \<Rightarrow> world option" where
  "hardware_vector_multiply simulation_mode w vector_a vector_b result size' =
     (if simulation_mode \<noteq> 0
      then hw_sim_loop (usleep w 1) vector_a vector_b result size' 0
      else hw_fpga_loop w vector_a vector_b result size' 0)"

text \<open>\<^verbatim>\<open>software_vector_multiply\<close> (lines 46 to 54).\<close>

function sw_loop :: "world \<Rightarrow> addr \<Rightarrow> addr \<Rightarrow> addr \<Rightarrow> int \<Rightarrow> int \<Rightarrow> world option" where
  "sw_loop w vector_a vector_b result size' i =
     (if i < size' then
        (case load w (vector_a + nat i) of
           None \<Rightarrow> None
         | Some x \<Rightarrow>
        (case load w (vector_b + nat i) of
           None \<Rightarrow> None
         | Some y \<Rightarrow>
        (case store w (result + nat i) (mul_data_t x y) of
           None \<Rightarrow> None
         | Some w' \<Rightarrow> sw_loop w' vector_a vector_b result size' (i + 1))))
      else Some w)"
  by pat_completeness auto
termination
  by (relation "measure (\<lambda>(w, a, b, r, n, i). nat (n - i))") auto

definition software_vector_multiply ::
    "world \<Rightarrow> addr \<Rightarrow> addr \<Rightarrow> addr \<Rightarrow> int \<Rightarrow> world option" where
  "software_vector_multiply w vector_a vector_b result size' =
     sw_loop w vector_a vector_b result size' 0"

declare hw_sim_loop.simps [simp del] hw_fpga_loop.simps [simp del] sw_loop.simps [simp del]

section \<open>The benchmark driver\<close>

text \<open>
  \<^verbatim>\<open>get_time_sec\<close> (lines 57 to 62) reads the monotonic clock. What the clock shows is not
  decided by the program: \<open>clock k\<close> is the value of the \<open>k\<close>-th reading, in seconds.
\<close>

definition get_time_sec :: "(nat \<Rightarrow> real) \<Rightarrow> world \<Rightarrow> real \<times> world" where
  "get_time_sec clock w = (clock (ticks w), w\<lparr>ticks := Suc (ticks w)\<rparr>)"

text \<open>
  The four allocations of lines 67 to 70. A negative \<^verbatim>\<open>vector_size\<close> asks for no cells
  here (\<open>nat\<close> of a negative number is 0).
\<close>

definition allocate_buffers :: "world \<Rightarrow> int \<Rightarrow> addr \<times> addr \<times> addr \<times> addr \<times> world" where
  "allocate_buffers w vector_size =
     (let (vector_a, w1) = malloc w (nat vector_size);
          (vector_b, w2) = malloc w1 (nat vector_size);
          (hw_result, w3) = malloc w2 (nat vector_size);
          (sw_result, w4) = malloc w3 (nat vector_size)
      in (vector_a, vector_b, hw_result, sw_result, w4))"

text \<open>
  The test data of lines 78 and 79: an \<^verbatim>\<open>int\<close> expression, with C's remainder (\<open>smod\<close>
  truncates towards zero), converted to \<^verbatim>\<open>data_t\<close> by the assignment.
\<close>

definition test_data_a :: "int \<Rightarrow> data_t" where
  "test_data_a i = word_of_int ((i smod 100) + 1)"

definition test_data_b :: "int \<Rightarrow> int \<Rightarrow> data_t" where
  "test_data_b vector_size i = word_of_int (((vector_size - i) smod 100) + 1)"

text \<open>The initialisation loop of lines 76 to 80.\<close>

function init_loop :: "world \<Rightarrow> addr \<Rightarrow> addr \<Rightarrow> int \<Rightarrow> int \<Rightarrow> world option" where
  "init_loop w vector_a vector_b vector_size i =
     (if i < vector_size then
        (case store w (vector_a + nat i) (test_data_a i) of
           None \<Rightarrow> None
         | Some w1 \<Rightarrow>
        (case store w1 (vector_b + nat i) (test_data_b vector_size i) of
           None \<Rightarrow> None
         | Some w2 \<Rightarrow> init_loop w2 vector_a vector_b vector_size (i + 1)))
      else Some w)"
  by pat_completeness auto
termination
  by (relation "measure (\<lambda>(w, a, b, n, i). nat (n - i))") auto

text \<open>The two timed loops, lines 84 to 87 and lines 94 to 97.\<close>

function hw_timed_loop :: "world \<Rightarrow> addr \<Rightarrow> addr \<Rightarrow> addr \<Rightarrow> int \<Rightarrow> int \<Rightarrow> world option" where
  "hw_timed_loop w vector_a vector_b hw_result vector_size j =
     (if j < NUM_TESTS then
        (case hardware_vector_multiply SIMULATION_MODE w vector_a vector_b hw_result vector_size of
           None \<Rightarrow> None
         | Some w' \<Rightarrow> hw_timed_loop w' vector_a vector_b hw_result vector_size (j + 1))
      else Some w)"
  by pat_completeness auto
termination
  by (relation "measure (\<lambda>(w, a, b, r, n, j). nat (NUM_TESTS - j))") auto

function sw_timed_loop :: "world \<Rightarrow> addr \<Rightarrow> addr \<Rightarrow> addr \<Rightarrow> int \<Rightarrow> int \<Rightarrow> world option" where
  "sw_timed_loop w vector_a vector_b sw_result vector_size j =
     (if j < NUM_TESTS then
        (case software_vector_multiply w vector_a vector_b sw_result vector_size of
           None \<Rightarrow> None
         | Some w' \<Rightarrow> sw_timed_loop w' vector_a vector_b sw_result vector_size (j + 1))
      else Some w)"
  by pat_completeness auto
termination
  by (relation "measure (\<lambda>(w, a, b, r, n, j). nat (NUM_TESTS - j))") auto

text \<open>
  The verification loop of lines 104 to 112, with the flag \<^verbatim>\<open>match\<close> of line 103 as an
  argument. \<^verbatim>\<open>%d\<close> prints the promoted \<^verbatim>\<open>uint16_t\<close> values, that is \<open>uint\<close> of them.
  The \<^verbatim>\<open>break\<close> is the branch without a recursive call.
\<close>

function verify_loop ::
    "world \<Rightarrow> addr \<Rightarrow> addr \<Rightarrow> int \<Rightarrow> int \<Rightarrow> int \<Rightarrow> (int \<times> world) option" where
  "verify_loop w hw_result sw_result vector_size match i =
     (if i < vector_size then
        (case load w (hw_result + nat i) of
           None \<Rightarrow> None
         | Some h \<Rightarrow>
        (case load w (sw_result + nat i) of
           None \<Rightarrow> None
         | Some s \<Rightarrow>
            if h \<noteq> s
            then Some (0, printf w (Mismatch i (uint h) (uint s)))
            else verify_loop w hw_result sw_result vector_size match (i + 1)))
      else Some (match, w))"
  by pat_completeness auto
termination
  by (relation "measure (\<lambda>(w, h, s, n, m, i). nat (n - i))") auto

text \<open>The report of lines 115 to 119.\<close>

definition print_results :: "world \<Rightarrow> int \<Rightarrow> real \<Rightarrow> real \<Rightarrow> int \<Rightarrow> world" where
  "print_results w vector_size hw_time sw_time match =
     (let w1 = printf w (VectorSize vector_size);
          w2 = printf w1 (HardwareTime hw_time);
          w3 = printf w2 (SoftwareTime sw_time);
          w4 = printf w3 (Speedup sw_time hw_time)
      in printf w4 (Results (match \<noteq> 0)))"

text \<open>The four calls of \<^verbatim>\<open>free\<close>, lines 122 to 125.\<close>

definition free_buffers :: "world \<Rightarrow> addr \<Rightarrow> addr \<Rightarrow> addr \<Rightarrow> addr \<Rightarrow> world option" where
  "free_buffers w vector_a vector_b hw_result sw_result =
     do {
       w1 \<leftarrow> free w vector_a;
       w2 \<leftarrow> free w1 vector_b;
       w3 \<leftarrow> free w2 hw_result;
       free w3 sw_result
     }"

text \<open>
  Lines 102 to 125 of \<^verbatim>\<open>run_performance_test\<close>: what the driver does once both kernels
  have run and both times are known.
\<close>

definition verify_and_report ::
    "world \<Rightarrow> addr \<Rightarrow> addr \<Rightarrow> addr \<Rightarrow> addr \<Rightarrow> int \<Rightarrow> real \<Rightarrow> real \<Rightarrow> world option" where
  "verify_and_report w vector_a vector_b hw_result sw_result vector_size hw_time sw_time =
     do {
       (match, w1) \<leftarrow> verify_loop w hw_result sw_result vector_size 1 0;
       free_buffers (print_results w1 vector_size hw_time sw_time match)
         vector_a vector_b hw_result sw_result
     }"

text \<open>\<^verbatim>\<open>run_performance_test\<close> (lines 65 to 126).\<close>

definition run_performance_test :: "(nat \<Rightarrow> real) \<Rightarrow> world \<Rightarrow> int \<Rightarrow> world option" where
  "run_performance_test clock w vector_size =
     (let (vector_a, vector_b, hw_result, sw_result, w1) = allocate_buffers w vector_size
      in do {
        w2 \<leftarrow> init_loop w1 vector_a vector_b vector_size 0;
        let (start, w3) = get_time_sec clock w2;
        w4 \<leftarrow> hw_timed_loop w3 vector_a vector_b hw_result vector_size 0;
        let (end', w5) = get_time_sec clock w4;
        let hw_time = end' - start;
        let (start, w6) = get_time_sec clock w5;
        w7 \<leftarrow> sw_timed_loop w6 vector_a vector_b sw_result vector_size 0;
        let (end', w8) = get_time_sec clock w7;
        let sw_time = end' - start;
        verify_and_report w8 vector_a vector_b hw_result sw_result vector_size hw_time sw_time
      })"

section \<open>The scaling report\<close>

text \<open>
  \<^verbatim>\<open>double theoretical_speedup = size / (1.0 + 8.0 / size)\<close> (line 143), over the reals:
  the rounding of the \<^verbatim>\<open>double\<close> arithmetic is not part of the model.
\<close>

definition theoretical_speedup :: "int \<Rightarrow> real" where
  "theoretical_speedup size' = real_of_int size' / (1 + 8 / real_of_int size')"

text \<open>
  The loop of lines 139 to 145. Nothing in the loop itself bounds the number of rounds
  for an arbitrary start (from 0 the doubling never passes 4096), so not returning is the
  value \<open>None\<close>; the program starts it at 8.
\<close>

partial_function (option) scaling_loop :: "world \<Rightarrow> int \<Rightarrow> world option" where
  "scaling_loop w size' =
     (if size' \<le> 4096
      then scaling_loop (printf w (ScalingRow size' (theoretical_speedup size'))) (size' * 2)
      else Some w)"

definition scaling_header :: "line list" where
  "scaling_header =
     [Text ''Scaling Performance (simulated):'',
      Text ''----------------------------'',
      Text ''| Vector Size | Speedup   |'',
      Text ''----------------------------'']"

definition scaling_footer :: "line list" where
  "scaling_footer =
     [Text ''----------------------------'',
      Text ''Note: This shows theoretical scaling based on'',
      Text ''parallelism. Actual hardware would have additional'',
      Text ''factors like memory bandwidth and transfer overhead.'']"

text \<open>\<^verbatim>\<open>show_scaling_performance\<close> (lines 129 to 151).\<close>

definition show_scaling_performance :: "world \<Rightarrow> world option" where
  "show_scaling_performance w =
     do {
       w1 \<leftarrow> scaling_loop (foldl printf w scaling_header) 8;
       Some (foldl printf w1 scaling_footer)
     }"

section \<open>The entry point\<close>

text \<open>\<^verbatim>\<open>main\<close> (lines 153 to 170): the exit status and the final world.\<close>

definition main :: "(nat \<Rightarrow> real) \<Rightarrow> world \<Rightarrow> (int \<times> world) option" where
  "main clock w =
     (let w1 = printf w (Text ''Vector Multiplication Performance Test'');
          w2 = printf w1 (Text ''======================================'');
          w3 = printf w2 (RunningStandard VECTOR_SIZE)
      in do {
        w4 \<leftarrow> run_performance_test clock w3 VECTOR_SIZE;
        let w5 = printf w4 (RunningLarge LARGE_VECTOR_SIZE);
        w6 \<leftarrow> run_performance_test clock w5 LARGE_VECTOR_SIZE;
        w7 \<leftarrow> show_scaling_performance w6;
        Some (0, w7)
      })"

declare init_loop.simps [simp del] hw_timed_loop.simps [simp del]
  sw_timed_loop.simps [simp del] verify_loop.simps [simp del]

section \<open>Buffers\<close>

text \<open>
  \<open>buffer w p n\<close>: the \<open>n\<close> cells from \<open>p\<close> on lie inside one live block, so \<open>p\<close> points
  to a vector of length \<open>n\<close>. \<open>apart p q n\<close>: two such vectors share no cell.
\<close>

definition buffer :: "world \<Rightarrow> addr \<Rightarrow> nat \<Rightarrow> bool" where
  "buffer w p n = list_ex (\<lambda>(base, len). base \<le> p \<and> p + n \<le> base + len) (live w)"

definition apart :: "addr \<Rightarrow> addr \<Rightarrow> nat \<Rightarrow> bool" where
  "apart p q n = (p + n \<le> q \<or> q + n \<le> p)"

text \<open>
  What the memory holds once a kernel loop, started at index \<open>k\<close>, has written the cells
  \<open>r + k\<close> to \<open>r + n - 1\<close> of a result buffer that shares no cell with its inputs.
\<close>

definition products ::
    "(addr \<Rightarrow> data_t) \<Rightarrow> addr \<Rightarrow> addr \<Rightarrow> addr \<Rightarrow> nat \<Rightarrow> nat \<Rightarrow> addr \<Rightarrow> data_t" where
  "products m a b r k n =
     (\<lambda>p. if r + k \<le> p \<and> p < r + n
          then mul_data_t (m (a + (p - r))) (m (b + (p - r)))
          else m p)"

text \<open>
  A small world to run the kernels in: one live block of six cells at address 0, holding
  the vectors (300, 7) and (300, 5) and a result buffer of two cells.
\<close>

definition example_world :: world where
  "example_world =
     \<lparr>mem = (\<lambda>p. 0)(0 := 300, 1 := 7, 2 := 300, 3 := 5),
      live = [(0, 6)], brk = 7, slept = 0, ticks = 0, stdout = []\<rparr>"

text \<open>
  What the memory holds once the initialisation loop, started at index \<open>k\<close>, has filled
  two vectors of length \<open>nat vector_size\<close> that share no cell.
\<close>

definition test_data ::
    "(addr \<Rightarrow> data_t) \<Rightarrow> addr \<Rightarrow> addr \<Rightarrow> int \<Rightarrow> nat \<Rightarrow> addr \<Rightarrow> data_t" where
  "test_data m a b vector_size k =
     (\<lambda>p. if a + k \<le> p \<and> p < a + nat vector_size then test_data_a (int (p - a))
          else if b + k \<le> p \<and> p < b + nat vector_size then test_data_b vector_size (int (p - b))
          else m p)"

text \<open>
  A world where two result vectors of three cells, at addresses 0 and 3, differ at the
  indices 1 and 2.
\<close>

definition mismatch_world :: world where
  "mismatch_world =
     \<lparr>mem = (\<lambda>p. 0)(0 := 5, 1 := 6, 2 := 7, 3 := 5, 4 := 9, 5 := 8),
      live = [(0, 6)], brk = 7, slept = 0, ticks = 0, stdout = []\<rparr>"

text \<open>
  The five lines \<^verbatim>\<open>run_performance_test\<close> prints when the results match, for a run that
  starts when the clock has been read \<open>t\<close> times.
\<close>

definition matching_report :: "(nat \<Rightarrow> real) \<Rightarrow> nat \<Rightarrow> int \<Rightarrow> line list" where
  "matching_report clock t vector_size =
     [VectorSize vector_size,
      HardwareTime (clock (t + 1) - clock t),
      SoftwareTime (clock (t + 3) - clock (t + 2)),
      Speedup (clock (t + 3) - clock (t + 2)) (clock (t + 1) - clock t),
      Results True]"

text \<open>The sizes the scaling loop visits and the rows it prints for them.\<close>

definition scaling_sizes :: "int list" where
  "scaling_sizes = [8, 16, 32, 64, 128, 256, 512, 1024, 2048, 4096]"

definition scaling_rows :: "line list" where
  "scaling_rows = map (\<lambda>s. ScalingRow s (real_of_int s / (1 + 8 / real_of_int s))) scaling_sizes"

text \<open>Everything \<^verbatim>\<open>main\<close> prints, for a run that starts when the clock has been read \<open>t\<close> times.\<close>

definition main_output :: "(nat \<Rightarrow> real) \<Rightarrow> nat \<Rightarrow> line list" where
  "main_output clock t =
     [Text ''Vector Multiplication Performance Test'',
      Text ''======================================'',
      RunningStandard 8]
     @ matching_report clock t 8
     @ [RunningLarge 1024]
     @ matching_report clock (t + 4) 1024
     @ scaling_header @ scaling_rows @ scaling_footer"

text \<open>
  A world as the driver has it after both timed loops, with vectors of two cells at the
  addresses 0, 3, 6 and 9, where the two result vectors differ at index 0.
\<close>

definition faulty_world :: world where
  "faulty_world =
     \<lparr>mem = (\<lambda>p. 0)(6 := 1, 9 := 2),
      live = [(9, 2), (6, 2), (3, 2), (0, 2)], brk = 12, slept = 0, ticks = 0, stdout = []\<rparr>"

text \<open>
  Lines 67 to 100 of \<^verbatim>\<open>run_performance_test\<close>: everything the driver does before it
  compares the results. It hands on the four buffers, the two times and the world.
\<close>

definition time_both_kernels ::
    "(nat \<Rightarrow> real) \<Rightarrow> world \<Rightarrow> int \<Rightarrow>
       (addr \<times> addr \<times> addr \<times> addr \<times> real \<times> real \<times> world) option" where
  "time_both_kernels clock w vector_size =
     (let (vector_a, vector_b, hw_result, sw_result, w1) = allocate_buffers w vector_size
      in do {
        w2 \<leftarrow> init_loop w1 vector_a vector_b vector_size 0;
        let (start, w3) = get_time_sec clock w2;
        w4 \<leftarrow> hw_timed_loop w3 vector_a vector_b hw_result vector_size 0;
        let (end', w5) = get_time_sec clock w4;
        let hw_time = end' - start;
        let (start, w6) = get_time_sec clock w5;
        w7 \<leftarrow> sw_timed_loop w6 vector_a vector_b sw_result vector_size 0;
        let (end', w8) = get_time_sec clock w7;
        let sw_time = end' - start;
        Some (vector_a, vector_b, hw_result, sw_result, hw_time, sw_time, w8)
      })"

text \<open>
  What is left of \<^verbatim>\<open>main\<close> once the first benchmark has returned (lines 162 to 169), and
  once the second one has (lines 166 to 169).
\<close>

definition after_large_run :: "world \<Rightarrow> (int \<times> world) option" where
  "after_large_run w6 =
     do {
       w7 \<leftarrow> show_scaling_performance w6;
       Some (0, w7)
     }"

definition after_standard_run :: "(nat \<Rightarrow> real) \<Rightarrow> world \<Rightarrow> (int \<times> world) option" where
  "after_standard_run clock w4 =
     (let w5 = printf w4 (RunningLarge LARGE_VECTOR_SIZE)
      in do {
        w6 \<leftarrow> run_performance_test clock w5 LARGE_VECTOR_SIZE;
        after_large_run w6
      })"

section \<open>Memory, validity and buffers\<close>

lemma valid_upd [simp]:
  "valid (w\<lparr>mem := m\<rparr>) p = valid w p"
  "valid (w\<lparr>slept := s\<rparr>) p = valid w p"
  "valid (w\<lparr>ticks := t\<rparr>) p = valid w p"
  "valid (w\<lparr>stdout := l\<rparr>) p = valid w p"
  by (simp_all add: valid_def)

lemma buffer_upd [simp]:
  "buffer (w\<lparr>mem := m\<rparr>) p n = buffer w p n"
  "buffer (w\<lparr>slept := s\<rparr>) p n = buffer w p n"
  "buffer (w\<lparr>ticks := t\<rparr>) p n = buffer w p n"
  "buffer (w\<lparr>stdout := l\<rparr>) p n = buffer w p n"
  by (simp_all add: buffer_def)

lemma buffer_valid: "buffer w p n \<Longrightarrow> k < n \<Longrightarrow> valid w (p + k)"
proof -
  assume "buffer w p n" and k: "k < n"
  then obtain base len where "(base, len) \<in> set (live w)" "base \<le> p" "p + n \<le> base + len"
    unfolding buffer_def list_ex_iff by blast
  with k have "(base, len) \<in> set (live w)" "base \<le> p + k \<and> p + k < base + len"
    by simp_all
  then show ?thesis
    unfolding valid_def list_ex_iff by blast
qed

section \<open>The three kernel loops are one loop\<close>

lemma hw_sim_loop_sw_loop: "hw_sim_loop w a b r n i = sw_loop w a b r n i"
proof (induction w a b r n i rule: sw_loop.induct)
  case (1 w a b r n i)
  have "hw_sim_loop w a b r n i =
      (if i < n then
         (case load w (a + nat i) of
            None \<Rightarrow> None
          | Some x \<Rightarrow>
         (case load w (b + nat i) of
            None \<Rightarrow> None
          | Some y \<Rightarrow>
         (case store w (r + nat i) (mul_data_t x y) of
            None \<Rightarrow> None
          | Some w' \<Rightarrow> sw_loop w' a b r n (i + 1))))
       else Some w)"
    using "1.IH" by (subst hw_sim_loop.simps) (auto split: option.splits)
  then show ?case
    by (simp add: sw_loop.simps [of w a b r n i])
qed

lemma hw_fpga_loop_sw_loop: "hw_fpga_loop w a b r n i = sw_loop w a b r n i"
proof (induction w a b r n i rule: sw_loop.induct)
  case (1 w a b r n i)
  have "hw_fpga_loop w a b r n i =
      (if i < n then
         (case load w (a + nat i) of
            None \<Rightarrow> None
          | Some x \<Rightarrow>
         (case load w (b + nat i) of
            None \<Rightarrow> None
          | Some y \<Rightarrow>
         (case store w (r + nat i) (mul_data_t x y) of
            None \<Rightarrow> None
          | Some w' \<Rightarrow> sw_loop w' a b r n (i + 1))))
       else Some w)"
    using "1.IH" by (subst hw_fpga_loop.simps) (auto split: option.splits)
  then show ?case
    by (simp add: sw_loop.simps [of w a b r n i])
qed

section \<open>What a kernel loop computes\<close>

lemma products_step:
  assumes "k < n" "apart r a n" "apart r b n"
  shows "products (m(r + k := mul_data_t (m (a + k)) (m (b + k)))) a b r (Suc k) n
         = products m a b r k n"
proof
  fix p
  show "products (m(r + k := mul_data_t (m (a + k)) (m (b + k)))) a b r (Suc k) n p
         = products m a b r k n p"
  proof (cases "p = r + k")
    case True
    with assms show ?thesis by (simp add: products_def)
  next
    case False
    have "a + (p - r) \<noteq> r + k" "b + (p - r) \<noteq> r + k" if "r + Suc k \<le> p" "p < r + n"
      using that assms by (auto simp: apart_def)
    with False show ?thesis
      by (auto simp: products_def)
  qed
qed

lemma sw_loop_products:
  assumes "0 \<le> i" "buffer w a (nat n)" "buffer w b (nat n)" "buffer w r (nat n)"
    "apart r a (nat n)" "apart r b (nat n)"
  shows "sw_loop w a b r n i = Some (w\<lparr>mem := products (mem w) a b r (nat i) (nat n)\<rparr>)"
  using assms
proof (induction w a b r n i rule: sw_loop.induct)
  case (1 w a b r n i)
  show ?case
  proof (cases "i < n")
    case False
    then have "products (mem w) a b r (nat i) (nat n) = mem w"
      by (auto simp: products_def fun_eq_iff)
    with False show ?thesis
      by (simp add: sw_loop.simps [of w a b r n i])
  next
    case True
    with "1.prems" have k: "nat i < nat n" by simp
    define v where "v = mul_data_t (mem w (a + nat i)) (mem w (b + nat i))"
    define w' where "w' = w\<lparr>mem := (mem w)(r + nat i := v)\<rparr>"
    have la: "load w (a + nat i) = Some (mem w (a + nat i))"
      and lb: "load w (b + nat i) = Some (mem w (b + nat i))"
      and st: "store w (r + nat i) (mul_data_t (mem w (a + nat i)) (mem w (b + nat i))) = Some w'"
      using "1.prems" k by (simp_all add: load_def store_def buffer_valid w'_def v_def)
    have step: "sw_loop w a b r n i = sw_loop w' a b r n (i + 1)"
      by (simp add: sw_loop.simps [of w a b r n i] True la lb st)
    have "sw_loop w' a b r n (i + 1) =
        Some (w'\<lparr>mem := products (mem w') a b r (nat (i + 1)) (nat n)\<rparr>)"
      using "1.prems" by (intro "1.IH" [OF True la lb st]) (simp_all add: w'_def)
    moreover have "nat (i + 1) = Suc (nat i)"
      using "1.prems" by simp
    moreover have "mem w' = (mem w)(r + nat i := v)"
      by (simp add: w'_def)
    ultimately have "sw_loop w' a b r n (i + 1) =
        Some (w'\<lparr>mem := products (mem w) a b r (nat i) (nat n)\<rparr>)"
      using products_step [OF k "1.prems"(5,6), of "mem w"] by (simp add: v_def)
    with step show ?thesis by (simp add: w'_def)
  qed
qed

lemma world_swap:
  "(w\<lparr>slept := s\<rparr>)\<lparr>mem := m\<rparr> = (w\<lparr>mem := m\<rparr>)\<lparr>slept := s\<rparr>" for w :: world
  by simp

section \<open>The 16-bit product\<close>

lemma unat_promote: "unat (ucast (x :: data_t) :: 32 word) = unat x"
proof -
  have "unat x < 2 ^ 16"
    using unsigned_less [of x] by simp
  then have "unat x mod 2 ^ 32 = unat x"
    by simp
  then show ?thesis
    by (simp add: unsigned_ucast_eq take_bit_eq_mod)
qed

lemma unat_mul_data_t: "unat (mul_data_t x y) = (unat x * unat y) mod 65536"
proof -
  have "unat (mul_data_t x y) = unat ((ucast x :: 32 word) * ucast y) mod 2 ^ 16"
    unfolding mul_data_t_def by (simp add: unsigned_ucast_eq take_bit_eq_mod)
  also have "unat ((ucast x :: 32 word) * ucast y) = (unat x * unat y) mod 2 ^ 32"
    by (simp add: unat_word_ariths unat_promote)
  also have "(unat x * unat y) mod 2 ^ 32 mod 2 ^ 16 = (unat x * unat y) mod 2 ^ 16"
    by (rule mod_mod_cancel) simp
  finally show ?thesis by simp
qed

section \<open>Sleeping and the frame of a kernel loop\<close>

lemma sw_loop_slept:
  "sw_loop (w\<lparr>slept := s\<rparr>) a b r n i = map_option (\<lambda>w'. w'\<lparr>slept := s\<rparr>) (sw_loop w a b r n i)"
proof (induction w a b r n i rule: sw_loop.induct)
  case (1 w a b r n i)
  show ?case
  proof (cases "i < n \<and> valid w (a + nat i) \<and> valid w (b + nat i) \<and> valid w (r + nat i)")
    case False
    then show ?thesis
      by (auto simp: sw_loop.simps [of _ a b r n i] load_def store_def)
  next
    case True
    define w' where
      "w' = w\<lparr>mem := (mem w)(r + nat i := mul_data_t (mem w (a + nat i)) (mem w (b + nat i)))\<rparr>"
    have la: "load w (a + nat i) = Some (mem w (a + nat i))"
      and lb: "load w (b + nat i) = Some (mem w (b + nat i))"
      and st: "store w (r + nat i) (mul_data_t (mem w (a + nat i)) (mem w (b + nat i))) = Some w'"
      using True by (simp_all add: load_def store_def w'_def)
    have "sw_loop (w\<lparr>slept := s\<rparr>) a b r n i =
        sw_loop ((w\<lparr>slept := s\<rparr>)\<lparr>mem := (mem w)(r + nat i := mul_data_t (mem w (a + nat i)) (mem w (b + nat i)))\<rparr>) a b r n (i + 1)"
      using True by (simp add: sw_loop.simps [of "w\<lparr>slept := s\<rparr>" a b r n i] load_def store_def)
    also have "\<dots> = sw_loop (w'\<lparr>slept := s\<rparr>) a b r n (i + 1)"
      unfolding w'_def by (subst world_swap) (rule refl)
    also have "\<dots> = map_option (\<lambda>w'. w'\<lparr>slept := s\<rparr>) (sw_loop w' a b r n (i + 1))"
      using True by (intro "1.IH" [OF _ la lb st]) simp
    also have "sw_loop w' a b r n (i + 1) = sw_loop w a b r n i"
      using True by (simp add: sw_loop.simps [of w a b r n i] la lb st)
    finally show ?thesis .
  qed
qed

lemma sw_loop_keeps:
  "sw_loop w a b r n i = Some w' \<Longrightarrow> 0 \<le> i \<Longrightarrow>
     live w' = live w \<and> brk w' = brk w \<and> slept w' = slept w \<and> ticks w' = ticks w \<and>
     stdout w' = stdout w \<and> (\<forall>p. p < r + nat i \<or> r + nat n \<le> p \<longrightarrow> mem w' p = mem w p)"
proof (induction w a b r n i rule: sw_loop.induct)
  case (1 w a b r n i)
  show ?case
  proof (cases "i < n")
    case False
    with "1.prems" show ?thesis
      by (simp add: sw_loop.simps [of w a b r n i])
  next
    case True
    from "1.prems" True obtain x y w1 where
      la: "load w (a + nat i) = Some x" and lb: "load w (b + nat i) = Some y"
      and st: "store w (r + nat i) (mul_data_t x y) = Some w1"
      and rest: "sw_loop w1 a b r n (i + 1) = Some w'"
      by (auto simp: sw_loop.simps [of w a b r n i] split: option.splits)
    have w1: "w1 = w\<lparr>mem := (mem w)(r + nat i := mul_data_t x y)\<rparr>"
      using st by (auto simp: store_def split: if_splits)
    have i1: "nat (i + 1) = Suc (nat i)"
      using "1.prems" by simp
    have ih: "live w' = live w1 \<and> brk w' = brk w1 \<and> slept w' = slept w1 \<and> ticks w' = ticks w1 \<and>
     stdout w' = stdout w1 \<and> (\<forall>p. p < r + nat (i + 1) \<or> r + nat n \<le> p \<longrightarrow> mem w' p = mem w1 p)"
      using "1.prems" by (intro "1.IH" [OF True la lb st rest]) simp
    have "mem w' p = mem w p" if "p < r + nat i \<or> r + nat n \<le> p" for p
    proof -
      from that True "1.prems" have "p \<noteq> r + nat i" "p < r + nat (i + 1) \<or> r + nat n \<le> p"
        by auto
      with ih show ?thesis by (auto simp: w1)
    qed
    with ih show ?thesis
      by (simp add: w1)
  qed
qed

section \<open>The kernels on separate buffers\<close>

lemma software_vector_multiply_products:
  assumes "buffer w a (nat n)" "buffer w b (nat n)" "buffer w r (nat n)"
    "apart r a (nat n)" "apart r b (nat n)"
  shows "software_vector_multiply w a b r n = Some (w\<lparr>mem := products (mem w) a b r 0 (nat n)\<rparr>)"
  using sw_loop_products [OF _ assms, of 0] by (simp add: software_vector_multiply_def)

lemma hardware_vector_multiply_sw_loop:
  "hardware_vector_multiply sm w a b r n =
     map_option (\<lambda>w'. usleep w' (if sm \<noteq> 0 then 1 else 0)) (sw_loop w a b r n 0)"
proof (cases "sm = 0")
  case True
  have "map_option (\<lambda>w'. usleep w' 0) x = x" for x :: "world option"
    by (cases x) (simp_all add: usleep_def)
  with True show ?thesis
    by (simp add: hardware_vector_multiply_def hw_fpga_loop_sw_loop)
next
  case False
  have "map_option (\<lambda>w'. w'\<lparr>slept := slept w + 1\<rparr>) (sw_loop w a b r n 0)
      = map_option (\<lambda>w'. usleep w' 1) (sw_loop w a b r n 0)"
  proof (cases "sw_loop w a b r n 0")
    case None
    then show ?thesis by simp
  next
    case (Some w')
    with sw_loop_keeps [OF Some] show ?thesis
      by (simp add: usleep_def)
  qed
  with False show ?thesis
    by (simp add: hardware_vector_multiply_def hw_sim_loop_sw_loop usleep_def sw_loop_slept)
qed

lemma hardware_vector_multiply_products:
  assumes "buffer w a (nat n)" "buffer w b (nat n)" "buffer w r (nat n)"
    "apart r a (nat n)" "apart r b (nat n)"
  shows "hardware_vector_multiply sm w a b r n =
     Some (w\<lparr>mem := products (mem w) a b r 0 (nat n),
             slept := slept w + (if sm \<noteq> 0 then 1 else 0)\<rparr>)"
  using sw_loop_products [OF _ assms, of 0]
  by (simp add: hardware_vector_multiply_sw_loop usleep_def)

section \<open>The simulation flag\<close>

text \<open>
  C10. What \<^verbatim>\<open>hardware_vector_multiply\<close> does with the flag set is what it does with the
  flag cleared, followed by the one microsecond of \<^verbatim>\<open>usleep\<close>: for every size and every
  memory, both branches leave the same values in memory (and both fail on the same inputs);
  only the time slept differs.
\<close>
theorem simulation_mode_only_delays:
  "hardware_vector_multiply sm w a b r n =
     map_option (\<lambda>w'. usleep w' (if sm \<noteq> 0 then 1 else 0))
       (hardware_vector_multiply 0 w a b r n)
   \<and> map_option mem (hardware_vector_multiply sm w a b r n) =
     map_option mem (hardware_vector_multiply 0 w a b r n)"
proof -
  have "hardware_vector_multiply 0 w a b r n = sw_loop w a b r n 0"
    by (simp add: hardware_vector_multiply_def hw_fpga_loop_sw_loop)
  then show ?thesis
    by (simp add: hardware_vector_multiply_sw_loop [of sm] option.map_comp comp_def usleep_def)
qed

theorem simulation_mode_only_delays_witness:
  "map_option mem (hardware_vector_multiply 1 example_world 0 2 4 2) =
   map_option mem (hardware_vector_multiply 0 example_world 0 2 4 2)
   \<and> map_option slept (hardware_vector_multiply 1 example_world 0 2 4 2) = Some 1
   \<and> map_option slept (hardware_vector_multiply 0 example_world 0 2 4 2) = Some 0"
proof -
  have b: "buffer example_world 0 (nat 2)" "buffer example_world 2 (nat 2)"
    "buffer example_world 4 (nat 2)" "apart 4 0 (nat 2)" "apart 4 2 (nat 2)"
    by (simp_all add: buffer_def apart_def example_world_def)
  have "hardware_vector_multiply 0 example_world 0 2 4 2 =
      Some (example_world\<lparr>mem := products (mem example_world) 0 2 4 0 (nat 2),
             slept := slept example_world + 0\<rparr>)"
    using hardware_vector_multiply_products [OF b, of 0] by simp
  then show ?thesis
    using simulation_mode_only_delays [of 1 example_world 0 2 4 2]
    by (simp add: usleep_def example_world_def)
qed

section \<open>Wrap-around products\<close>

text \<open>
  C2. For vectors \<open>a\<close>, \<open>b\<close> of length \<open>n\<close> and a result buffer of length \<open>n\<close> that
  shares no cell with them, both kernels return, and for every index \<open>i\<close> in \<open>[0, n)\<close> the
  cell \<open>result[i]\<close> then holds \<open>(a[i] * b[i]) mod 65536\<close>, with \<open>a[i]\<close> and \<open>b[i]\<close> read
  as unsigned numbers.
\<close>
theorem kernels_multiply_mod_65536:
  assumes "buffer w a (nat n)" "buffer w b (nat n)" "buffer w r (nat n)"
    "apart r a (nat n)" "apart r b (nat n)" "0 \<le> i" "i < n"
  shows "\<exists>w1 w2.
      hardware_vector_multiply sm w a b r n = Some w1 \<and>
      software_vector_multiply w a b r n = Some w2 \<and>
      unat (mem w1 (r + nat i)) = (unat (mem w (a + nat i)) * unat (mem w (b + nat i))) mod 65536 \<and>
      unat (mem w2 (r + nat i)) = (unat (mem w (a + nat i)) * unat (mem w (b + nat i))) mod 65536"
proof -
  from assms(6,7) have "products (mem w) a b r 0 (nat n) (r + nat i) =
      mul_data_t (mem w (a + nat i)) (mem w (b + nat i))"
    by (simp add: products_def)
  then show ?thesis
    using hardware_vector_multiply_products [OF assms(1-5), of sm]
      software_vector_multiply_products [OF assms(1-5)]
    by (simp add: unat_mul_data_t)
qed

theorem kernels_multiply_mod_65536_witness:
  "buffer example_world 0 (nat 2) \<and> buffer example_world 2 (nat 2) \<and>
   buffer example_world 4 (nat 2) \<and> apart 4 0 (nat 2) \<and> apart 4 2 (nat 2) \<and>
   (\<exists>w1 w2.
      hardware_vector_multiply 1 example_world 0 2 4 2 = Some w1 \<and>
      software_vector_multiply example_world 0 2 4 2 = Some w2 \<and>
      unat (mem w1 4) = 24464 \<and> unat (mem w2 4) = 24464)"
proof -
  have b: "buffer example_world 0 (nat 2)" "buffer example_world 2 (nat 2)"
    "buffer example_world 4 (nat 2)" "apart 4 0 (nat 2)" "apart 4 2 (nat 2)"
    by (simp_all add: buffer_def apart_def example_world_def)
  have "(0::int) \<le> 0" "(0::int) < 2" by simp_all
  from kernels_multiply_mod_65536 [OF b this, of 1] b show ?thesis
    by (simp add: example_world_def)
qed

section \<open>The frame of the kernels\<close>

lemma products_outside: "p < r \<or> r + n \<le> p \<Longrightarrow> products m a b r 0 n p = m p"
  by (auto simp: products_def)

lemma products_input: "apart r a n \<Longrightarrow> k < n \<Longrightarrow> products m x y r 0 n (a + k) = m (a + k)"
  by (auto simp: products_def apart_def)

lemma kernels_write_only_result:
  assumes "hardware_vector_multiply sm w a b r n = Some w' \<or>
           software_vector_multiply w a b r n = Some w'"
  shows "(\<forall>p. p < r \<or> r + nat n \<le> p \<longrightarrow> mem w' p = mem w p) \<and> live w' = live w"
proof -
  from assms obtain w'' where s: "sw_loop w a b r n 0 = Some w''" and m: "mem w' = mem w''"
    and l: "live w' = live w''"
    by (auto simp: hardware_vector_multiply_sw_loop software_vector_multiply_def usleep_def)
  from sw_loop_keeps [OF s] m l show ?thesis
    by simp
qed

text \<open>
  C9. A kernel that returns has written to no cell outside the \<open>n\<close> cells of the result
  buffer, and has left the allocated blocks as they were. So for vectors \<open>a\<close>, \<open>b\<close> of
  length \<open>n\<close> and a result buffer of length \<open>n\<close> that shares no cell with them, both
  kernels return and every cell of \<open>a\<close> and of \<open>b\<close> holds afterwards what it held before.
\<close>

theorem kernels_leave_inputs_unchanged:
  "(hardware_vector_multiply sm w a b r n = Some w' \<or>
    software_vector_multiply w a b r n = Some w'
      \<longrightarrow> (\<forall>p. p < r \<or> r + nat n \<le> p \<longrightarrow> mem w' p = mem w p) \<and> live w' = live w)
   \<and>
   (buffer w a (nat n) \<and> buffer w b (nat n) \<and> buffer w r (nat n) \<and>
    apart r a (nat n) \<and> apart r b (nat n)
      \<longrightarrow> (\<exists>w1 w2.
            hardware_vector_multiply sm w a b r n = Some w1 \<and>
            software_vector_multiply w a b r n = Some w2 \<and>
            (\<forall>k<nat n. mem w1 (a + k) = mem w (a + k) \<and> mem w1 (b + k) = mem w (b + k) \<and>
                        mem w2 (a + k) = mem w (a + k) \<and> mem w2 (b + k) = mem w (b + k))))"
proof -
  have "\<exists>w1 w2.
      hardware_vector_multiply sm w a b r n = Some w1 \<and>
      software_vector_multiply w a b r n = Some w2 \<and>
      (\<forall>k<nat n. mem w1 (a + k) = mem w (a + k) \<and> mem w1 (b + k) = mem w (b + k) \<and>
                  mem w2 (a + k) = mem w (a + k) \<and> mem w2 (b + k) = mem w (b + k))"
    if h: "buffer w a (nat n)" "buffer w b (nat n)" "buffer w r (nat n)"
      "apart r a (nat n)" "apart r b (nat n)"
    using hardware_vector_multiply_products [OF h, of sm]
      software_vector_multiply_products [OF h] h(4,5)
    by (simp add: products_input)
  with kernels_write_only_result [of sm w a b r n w'] show ?thesis
    by blast
qed

theorem kernels_leave_inputs_unchanged_witness:
  "\<exists>w1 w2.
      hardware_vector_multiply 1 example_world 0 2 4 2 = Some w1 \<and>
      software_vector_multiply example_world 0 2 4 2 = Some w2 \<and>
      mem w1 0 = 300 \<and> mem w1 1 = 7 \<and> mem w1 2 = 300 \<and> mem w1 3 = 5 \<and>
      mem w2 0 = 300 \<and> mem w2 1 = 7 \<and> mem w2 2 = 300 \<and> mem w2 3 = 5 \<and>
      mem w1 6 = 0 \<and> mem w2 6 = 0"
proof -
  have b: "buffer example_world 0 (nat 2) \<and> buffer example_world 2 (nat 2) \<and>
    buffer example_world 4 (nat 2) \<and> apart 4 0 (nat 2) \<and> apart 4 2 (nat 2)"
    by (simp add: buffer_def apart_def example_world_def)
  with kernels_leave_inputs_unchanged [of 1 example_world 0 2 4 2] obtain w1 w2 where
    r: "hardware_vector_multiply 1 example_world 0 2 4 2 = Some w1"
      "software_vector_multiply example_world 0 2 4 2 = Some w2"
    and k: "\<forall>k<nat 2. mem w1 (0 + k) = mem example_world (0 + k) \<and>
        mem w1 (2 + k) = mem example_world (2 + k) \<and>
        mem w2 (0 + k) = mem example_world (0 + k) \<and>
        mem w2 (2 + k) = mem example_world (2 + k)"
    by blast
  from kernels_leave_inputs_unchanged [of 1 example_world 0 2 4 2 w1] r
  have "mem w1 6 = mem example_world 6"
    by simp
  moreover from kernels_leave_inputs_unchanged [of 1 example_world 0 2 4 2 w2] r
  have "mem w2 6 = mem example_world 6"
    by simp
  moreover from k have "mem w1 (0 + k) = mem example_world (0 + k) \<and>
        mem w1 (2 + k) = mem example_world (2 + k) \<and>
        mem w2 (0 + k) = mem example_world (0 + k) \<and>
        mem w2 (2 + k) = mem example_world (2 + k)" if "k < 2" for k
    using that by simp
  from this [of 0] this [of 1] have "mem w1 0 = 300 \<and> mem w1 1 = 7 \<and> mem w1 2 = 300 \<and> mem w1 3 = 5 \<and>
      mem w2 0 = 300 \<and> mem w2 1 = 7 \<and> mem w2 2 = 300 \<and> mem w2 3 = 5"
    by (simp add: example_world_def)
  ultimately show ?thesis
    using r by (simp add: example_world_def)
qed

section \<open>The timed loops\<close>

lemma products_idem:
  assumes "apart r a n" "apart r b n"
  shows "products (products m a b r 0 n) a b r 0 n = products m a b r 0 n"
proof
  fix p
  show "products (products m a b r 0 n) a b r 0 n p = products m a b r 0 n p"
  proof (cases "r \<le> p \<and> p < r + n")
    case False
    then show ?thesis by (auto simp: products_def)
  next
    case True
    then have "p - r < n" by auto
    then have "products m a b r 0 n (a + (p - r)) = m (a + (p - r))"
      "products m a b r 0 n (b + (p - r)) = m (b + (p - r))"
      using assms by (simp_all add: products_input)
    moreover have "products M a b r 0 n p = mul_data_t (M (a + (p - r))) (M (b + (p - r)))" for M
      using True by (simp add: products_def)
    ultimately show ?thesis
      by simp
  qed
qed

lemma sw_timed_loop_products:
  assumes "buffer w a (nat n)" "buffer w b (nat n)" "buffer w r (nat n)"
    "apart r a (nat n)" "apart r b (nat n)" "j < NUM_TESTS"
  shows "sw_timed_loop w a b r n j = Some (w\<lparr>mem := products (mem w) a b r 0 (nat n)\<rparr>)"
  using assms
proof (induction w a b r n j rule: sw_timed_loop.induct)
  case (1 w a b r n j)
  define w' where "w' = w\<lparr>mem := products (mem w) a b r 0 (nat n)\<rparr>"
  have k: "software_vector_multiply w a b r n = Some w'"
    unfolding w'_def using "1.prems" by (intro software_vector_multiply_products)
  have step: "sw_timed_loop w a b r n j = sw_timed_loop w' a b r n (j + 1)"
    using "1.prems"(6) by (simp add: sw_timed_loop.simps [of w a b r n j] k)
  show ?case
  proof (cases "j + 1 < NUM_TESTS")
    case False
    then show ?thesis
      unfolding step by (simp add: sw_timed_loop.simps [of _ a b r n "j + 1"] w'_def)
  next
    case True
    have "sw_timed_loop w' a b r n (j + 1) = Some (w'\<lparr>mem := products (mem w') a b r 0 (nat n)\<rparr>)"
      using "1.prems" True by (intro "1.IH" [OF _ k]) (simp_all add: w'_def)
    then show ?thesis
      unfolding step using "1.prems"(4,5) by (simp add: w'_def products_idem)
  qed
qed

lemma hw_timed_loop_products:
  assumes "buffer w a (nat n)" "buffer w b (nat n)" "buffer w r (nat n)"
    "apart r a (nat n)" "apart r b (nat n)" "j < NUM_TESTS"
  shows "hw_timed_loop w a b r n j =
     Some (w\<lparr>mem := products (mem w) a b r 0 (nat n), slept := slept w + nat (NUM_TESTS - j)\<rparr>)"
  using assms
proof (induction w a b r n j rule: hw_timed_loop.induct)
  case (1 w a b r n j)
  define w' where "w' = w\<lparr>mem := products (mem w) a b r 0 (nat n), slept := slept w + 1\<rparr>"
  have k: "hardware_vector_multiply SIMULATION_MODE w a b r n = Some w'"
    unfolding w'_def using hardware_vector_multiply_products [OF "1.prems"(1-5), of SIMULATION_MODE]
    by (simp add: SIMULATION_MODE_def)
  have step: "hw_timed_loop w a b r n j = hw_timed_loop w' a b r n (j + 1)"
    using "1.prems"(6) by (simp add: hw_timed_loop.simps [of w a b r n j] k)
  show ?case
  proof (cases "j + 1 < NUM_TESTS")
    case False
    with "1.prems"(6) have "nat (NUM_TESTS - j) = 1" by simp
    with False show ?thesis
      unfolding step by (simp add: hw_timed_loop.simps [of _ a b r n "j + 1"] w'_def)
  next
    case True
    have "hw_timed_loop w' a b r n (j + 1) =
        Some (w'\<lparr>mem := products (mem w') a b r 0 (nat n),
                 slept := slept w' + nat (NUM_TESTS - (j + 1))\<rparr>)"
      using "1.prems" True by (intro "1.IH" [OF _ k]) (simp_all add: w'_def)
    moreover have "1 + nat (NUM_TESTS - (j + 1)) = nat (NUM_TESTS - j)"
      using True by simp
    ultimately show ?thesis
      unfolding step using "1.prems"(4,5) by (simp add: w'_def products_idem add.assoc)
  qed
qed

section \<open>Initialisation\<close>

lemma test_data_step:
  assumes "k < nat n" "apart a b (nat n)"
  shows "test_data (m(a + k := test_data_a (int k), b + k := test_data_b n (int k))) a b n (Suc k)
         = test_data m a b n k"
proof
  fix p
  from assms have ne: "a + k \<noteq> b + k"
    by (auto simp: apart_def)
  consider "p = a + k" | "p = b + k" | "p \<noteq> a + k" "p \<noteq> b + k"
    by blast
  then show "test_data (m(a + k := test_data_a (int k), b + k := test_data_b n (int k))) a b n (Suc k) p
         = test_data m a b n k p"
  proof cases
    case 1
    with assms ne show ?thesis
      by (auto simp: test_data_def apart_def)
  next
    case 2
    with assms ne show ?thesis
      by (auto simp: test_data_def apart_def)
  next
    case 3
    then show ?thesis
      by (auto simp: test_data_def)
  qed
qed

lemma init_loop_test_data:
  assumes "0 \<le> i" "buffer w a (nat n)" "buffer w b (nat n)" "apart a b (nat n)"
  shows "init_loop w a b n i = Some (w\<lparr>mem := test_data (mem w) a b n (nat i)\<rparr>)"
  using assms
proof (induction w a b n i rule: init_loop.induct)
  case (1 w a b n i)
  show ?case
  proof (cases "i < n")
    case False
    then have "test_data (mem w) a b n (nat i) = mem w"
      by (auto simp: test_data_def fun_eq_iff)
    with False show ?thesis
      by (simp add: init_loop.simps [of w a b n i])
  next
    case True
    with "1.prems" have k: "nat i < nat n" by simp
    define w1 where "w1 = w\<lparr>mem := (mem w)(a + nat i := test_data_a i)\<rparr>"
    define w2 where "w2 = w\<lparr>mem := (mem w)(a + nat i := test_data_a i, b + nat i := test_data_b n i)\<rparr>"
    have s1: "store w (a + nat i) (test_data_a i) = Some w1"
      using "1.prems" k by (simp add: store_def buffer_valid w1_def)
    have s2: "store w1 (b + nat i) (test_data_b n i) = Some w2"
      using "1.prems" k by (simp add: store_def buffer_valid w1_def w2_def)
    have step: "init_loop w a b n i = init_loop w2 a b n (i + 1)"
      by (simp add: init_loop.simps [of w a b n i] True s1 s2)
    have "init_loop w2 a b n (i + 1) = Some (w2\<lparr>mem := test_data (mem w2) a b n (nat (i + 1))\<rparr>)"
      using "1.prems" by (intro "1.IH" [OF True s1 s2]) (simp_all add: w2_def)
    moreover have "nat (i + 1) = Suc (nat i)" "int (nat i) = i"
      using "1.prems" by simp_all
    moreover have "mem w2 = (mem w)(a + nat i := test_data_a i, b + nat i := test_data_b n i)"
      by (simp add: w2_def)
    ultimately have "init_loop w2 a b n (i + 1) = Some (w2\<lparr>mem := test_data (mem w) a b n (nat i)\<rparr>)"
      using test_data_step [OF k "1.prems"(4), of "mem w"] by simp
    with step show ?thesis by (simp add: w2_def)
  qed
qed

section \<open>Allocation\<close>

lemma allocate_buffers_eq:
  "allocate_buffers w n =
     (brk w, brk w + (nat n + 1), brk w + 2 * (nat n + 1), brk w + 3 * (nat n + 1),
      w\<lparr>live := [(brk w + 3 * (nat n + 1), nat n), (brk w + 2 * (nat n + 1), nat n),
                (brk w + (nat n + 1), nat n), (brk w, nat n)] @ live w,
        brk := brk w + 4 * (nat n + 1)\<rparr>)"
  by (simp add: allocate_buffers_def malloc_def)

lemma buffer_live: "(p, n) \<in> set (live w) \<Longrightarrow> buffer w p n"
  unfolding buffer_def list_ex_iff by force

lemma free_buffers_fresh:
  assumes "live w = [(s, n), (h, n), (b, n), (a, n)] @ L"
    "a \<noteq> b" "a \<noteq> h" "a \<noteq> s" "b \<noteq> h" "b \<noteq> s" "h \<noteq> s"
  shows "free_buffers w a b h s = Some (w\<lparr>live := L\<rparr>)"
  using assms by (simp add: free_buffers_def free_def)

section \<open>Verification of the results\<close>

lemma verify_loop_all_equal:
  assumes "0 \<le> i" "buffer w h (nat n)" "buffer w s (nat n)"
    "\<forall>k. i \<le> k \<and> k < n \<longrightarrow> mem w (h + nat k) = mem w (s + nat k)"
  shows "verify_loop w h s n m i = Some (m, w)"
  using assms
proof (induction w h s n m i rule: verify_loop.induct)
  case (1 w h s n m i)
  show ?case
  proof (cases "i < n")
    case False
    then show ?thesis
      by (simp add: verify_loop.simps [of w h s n m i])
  next
    case True
    with "1.prems" have k: "nat i < nat n" by simp
    have lh: "load w (h + nat i) = Some (mem w (h + nat i))"
      and ls: "load w (s + nat i) = Some (mem w (s + nat i))"
      using "1.prems" k by (simp_all add: load_def buffer_valid)
    have eq: "mem w (h + nat i) = mem w (s + nat i)"
      using "1.prems"(4) True by simp
    have "verify_loop w h s n m i = verify_loop w h s n m (i + 1)"
      by (simp add: verify_loop.simps [of w h s n m i] True lh ls eq)
    also have "\<dots> = Some (m, w)"
      using "1.prems" eq by (intro "1.IH" [OF True lh ls]) simp_all
    finally show ?thesis .
  qed
qed

lemma verify_loop_first_mismatch:
  assumes "0 \<le> i" "i \<le> i0" "i0 < n"
    "buffer w h (nat i0 + 1)" "buffer w s (nat i0 + 1)"
    "\<forall>k. i \<le> k \<and> k < i0 \<longrightarrow> mem w (h + nat k) = mem w (s + nat k)"
    "mem w (h + nat i0) \<noteq> mem w (s + nat i0)"
  shows "verify_loop w h s n m i =
     Some (0, printf w (Mismatch i0 (uint (mem w (h + nat i0))) (uint (mem w (s + nat i0)))))"
  using assms
proof (induction w h s n m i rule: verify_loop.induct)
  case (1 w h s n m i)
  from "1.prems" have True: "i < n" and k: "nat i < nat i0 + 1"
    by simp_all
  have lh: "load w (h + nat i) = Some (mem w (h + nat i))"
    and ls: "load w (s + nat i) = Some (mem w (s + nat i))"
    using "1.prems" k by (simp_all add: load_def buffer_valid)
  show ?case
  proof (cases "i = i0")
    case True
    with "1.prems"(3,7) lh ls show ?thesis
      by (simp add: verify_loop.simps [of w h s n m i0])
  next
    case False
    with "1.prems" have eq: "mem w (h + nat i) = mem w (s + nat i)"
      by simp
    have "verify_loop w h s n m i = verify_loop w h s n m (i + 1)"
      by (simp add: verify_loop.simps [of w h s n m i] True lh ls eq)
    also have "\<dots> = Some (0, printf w (Mismatch i0 (uint (mem w (h + nat i0))) (uint (mem w (s + nat i0)))))"
      using "1.prems" eq False by (intro "1.IH" [OF True lh ls]) simp_all
    finally show ?thesis .
  qed
qed

text \<open>
  C5. The driver's verification walks both result vectors in index order. If they differ
  somewhere and \<open>i0\<close> is the lowest index where they do, the loop prints exactly one line, the
  mismatch at \<open>i0\<close> with both values, clears the flag and stops: it returns even when the
  cells after index \<open>i0\<close> are not allocated, so none of them is read. If the vectors agree
  on all of \<open>[0, n)\<close>, nothing is printed and the flag keeps the value 1 it started with.
\<close>

theorem verification_reports_first_mismatch:
  "(0 \<le> i0 \<and> i0 < n \<and> buffer w h (nat i0 + 1) \<and> buffer w s (nat i0 + 1) \<and>
    (\<forall>k. 0 \<le> k \<and> k < i0 \<longrightarrow> mem w (h + nat k) = mem w (s + nat k)) \<and>
    mem w (h + nat i0) \<noteq> mem w (s + nat i0)
    \<longrightarrow> verify_loop w h s n 1 0 =
          Some (0, printf w (Mismatch i0 (uint (mem w (h + nat i0))) (uint (mem w (s + nat i0))))))
   \<and>
   (buffer w h (nat n) \<and> buffer w s (nat n) \<and>
    (\<forall>k. 0 \<le> k \<and> k < n \<longrightarrow> mem w (h + nat k) = mem w (s + nat k))
    \<longrightarrow> verify_loop w h s n 1 0 = Some (1, w))"
  using verify_loop_first_mismatch [of 0 i0 n w h s 1] verify_loop_all_equal [of 0 w h n s 1]
  by simp

theorem verification_reports_first_mismatch_witness:
  "verify_loop mismatch_world 0 3 3 1 0 = Some (0, printf mismatch_world (Mismatch 1 6 9))
   \<and> verify_loop mismatch_world 0 3 1 1 0 = Some (1, mismatch_world)"
proof -
  have b: "buffer mismatch_world 0 (nat 1 + 1)" "buffer mismatch_world 3 (nat 1 + 1)"
    "buffer mismatch_world 0 (nat 1)" "buffer mismatch_world 3 (nat 1)"
    by (simp_all add: buffer_def mismatch_world_def)
  have e: "mem mismatch_world (0 + nat k) = mem mismatch_world (3 + nat k)" if "0 \<le> k \<and> k < 1" for k
  proof -
    from that have "k = 0" by simp
    then show ?thesis by (simp add: mismatch_world_def)
  qed
  have d: "mem mismatch_world (0 + nat 1) \<noteq> mem mismatch_world (3 + nat 1)"
    by (simp add: mismatch_world_def)
  have v: "uint (mem mismatch_world (0 + nat 1)) = 6" "uint (mem mismatch_world (3 + nat 1)) = 9"
    by (simp_all add: mismatch_world_def)
  have r: "(0::int) \<le> 1" "(1::int) < 3"
    by simp_all
  have "verify_loop mismatch_world 0 3 3 1 0 =
      Some (0, printf mismatch_world
        (Mismatch 1 (uint (mem mismatch_world (0 + nat 1))) (uint (mem mismatch_world (3 + nat 1)))))"
    using verification_reports_first_mismatch [of 1 3 mismatch_world 0 3] b e d r by blast
  then have "verify_loop mismatch_world 0 3 3 1 0 =
      Some (0, printf mismatch_world (Mismatch 1 6 9))"
    by (simp only: v)
  moreover have "verify_loop mismatch_world 0 3 1 1 0 = Some (1, mismatch_world)"
    using verification_reports_first_mismatch [of 0 1 mismatch_world 0 3] b e by blast
  ultimately show ?thesis by simp
qed

section \<open>One benchmark run\<close>

lemma results_agree:
  assumes "apart h a N" "apart h b N" "apart s a N" "apart s b N" "apart s h N" "k < N"
  shows "products (products M a b h 0 N) a b s 0 N (h + k) =
         products (products M a b h 0 N) a b s 0 N (s + k)"
proof -
  let ?M' = "products M a b h 0 N"
  have "products ?M' a b s 0 N (s + k) = mul_data_t (?M' (a + k)) (?M' (b + k))"
    using assms(6) by (simp add: products_def)
  also have "\<dots> = mul_data_t (M (a + k)) (M (b + k))"
    using assms by (simp add: products_input)
  also have "\<dots> = ?M' (h + k)"
    using assms(6) by (simp add: products_def)
  also have "\<dots> = products ?M' a b s 0 N (h + k)"
    using assms(5,6) by (simp add: products_input)
  finally show ?thesis by simp
qed

lemma run_performance_test_result:
  "\<exists>w'. run_performance_test clock w n = Some w' \<and>
        stdout w' = stdout w @ matching_report clock (ticks w) n \<and>
        ticks w' = ticks w + 4 \<and> live w' = live w \<and>
        slept w' = slept w + nat NUM_TESTS \<and> brk w' = brk w + 4 * (nat n + 1)"
proof -
  define N where "N = nat n"
  define a where "a = brk w"
  define b where "b = brk w + (N + 1)"
  define h where "h = brk w + 2 * (N + 1)"
  define s where "s = brk w + 3 * (N + 1)"
  define w1 where "w1 = w\<lparr>live := [(s, N), (h, N), (b, N), (a, N)] @ live w,
                          brk := brk w + 4 * (N + 1)\<rparr>"
  have al: "allocate_buffers w n = (a, b, h, s, w1)"
    by (simp add: allocate_buffers_eq a_def b_def h_def s_def w1_def N_def)
  have l1: "live w1 = [(s, N), (h, N), (b, N), (a, N)] @ live w"
    by (simp add: w1_def)
  have bf: "buffer w1 a N" "buffer w1 b N" "buffer w1 h N" "buffer w1 s N"
    by (rule buffer_live, simp add: l1)+
  have ap: "apart a b N" "apart h a N" "apart h b N" "apart s a N" "apart s b N" "apart s h N"
    by (simp_all add: apart_def a_def b_def h_def s_def)
  have ne: "a \<noteq> b" "a \<noteq> h" "a \<noteq> s" "b \<noteq> h" "b \<noteq> s" "h \<noteq> s"
    by (simp_all add: a_def b_def h_def s_def)
  have nt: "0 < NUM_TESTS"
    by (simp add: NUM_TESTS_def)

  define w2 where "w2 = w1\<lparr>mem := test_data (mem w1) a b n 0\<rparr>"
  have i: "init_loop w1 a b n 0 = Some w2"
    using init_loop_test_data [of 0 w1 a n b] bf ap by (simp add: w2_def N_def)
  define w3 where "w3 = w2\<lparr>ticks := Suc (ticks w)\<rparr>"
  have g1: "get_time_sec clock w2 = (clock (ticks w), w3)"
    by (simp add: get_time_sec_def w3_def w2_def w1_def)
  define w4 where "w4 = w3\<lparr>mem := products (mem w3) a b h 0 N, slept := slept w + nat NUM_TESTS\<rparr>"
  have hl: "hw_timed_loop w3 a b h n 0 = Some w4"
    using hw_timed_loop_products [of w3 a n b h 0] bf ap nt
    by (simp add: w4_def w3_def w2_def w1_def N_def)
  define w5 where "w5 = w4\<lparr>ticks := Suc (Suc (ticks w))\<rparr>"
  have g2: "get_time_sec clock w4 = (clock (ticks w + 1), w5)"
    by (simp add: get_time_sec_def w5_def w4_def w3_def)
  define w6 where "w6 = w5\<lparr>ticks := Suc (Suc (Suc (ticks w)))\<rparr>"
  have g3: "get_time_sec clock w5 = (clock (ticks w + 2), w6)"
    by (simp add: get_time_sec_def w6_def w5_def)
  define w7 where "w7 = w6\<lparr>mem := products (mem w6) a b s 0 N\<rparr>"
  have sl: "sw_timed_loop w6 a b s n 0 = Some w7"
    using sw_timed_loop_products [of w6 a n b s 0] bf ap nt
    by (simp add: w7_def w6_def w5_def w4_def w3_def w2_def w1_def N_def)
  define w8 where "w8 = w7\<lparr>ticks := Suc (Suc (Suc (Suc (ticks w))))\<rparr>"
  have g4: "get_time_sec clock w7 = (clock (ticks w + 3), w8)"
    by (simp add: get_time_sec_def w8_def w7_def w6_def eval_nat_numeral)
  have m8: "mem w8 = products (products (mem w2) a b h 0 N) a b s 0 N"
    by (simp add: w8_def w7_def w6_def w5_def w4_def w3_def)
  have l8: "live w8 = live w1"
    by (simp add: w8_def w7_def w6_def w5_def w4_def w3_def w2_def)
  have b8: "buffer w8 h (nat n)" "buffer w8 s (nat n)"
    using bf l8 by (simp_all add: buffer_def N_def)
  have "mem w8 (h + nat k) = mem w8 (s + nat k)" if "0 \<le> k \<and> k < n" for k
    unfolding m8 using that by (intro results_agree ap) (simp add: N_def)
  then have v: "verify_loop w8 h s n 1 0 = Some (1, w8)"
    using b8 by (intro verify_loop_all_equal) simp_all
  define ht where "ht = clock (ticks w + 1) - clock (ticks w)"
  define st where "st = clock (ticks w + 3) - clock (ticks w + 2)"
  define w9 where "w9 = print_results w8 n ht st 1"
  have l9: "live w9 = [(s, N), (h, N), (b, N), (a, N)] @ live w"
    by (simp add: w9_def print_results_def printf_def l8 l1)
  have f: "free_buffers w9 a b h s = Some (w9\<lparr>live := live w\<rparr>)"
    by (rule free_buffers_fresh [OF l9 ne])
  have "run_performance_test clock w n = free_buffers w9 a b h s"
    by (simp add: run_performance_test_def al i g1 hl g2 sl g3 g4 verify_and_report_def v
        ht_def st_def w9_def)
  with f have "run_performance_test clock w n = Some (w9\<lparr>live := live w\<rparr>)"
    by simp
  moreover have "stdout (w9\<lparr>live := live w\<rparr>) = stdout w @ matching_report clock (ticks w) n"
    by (simp add: w9_def print_results_def printf_def matching_report_def ht_def st_def
        w8_def w7_def w6_def w5_def w4_def w3_def w2_def w1_def)
  moreover have "ticks (w9\<lparr>live := live w\<rparr>) = ticks w + 4"
    "slept (w9\<lparr>live := live w\<rparr>) = slept w + nat NUM_TESTS"
    "brk (w9\<lparr>live := live w\<rparr>) = brk w + 4 * (nat n + 1)"
    by (simp_all add: w9_def print_results_def printf_def
        w8_def w7_def w6_def w5_def w4_def w3_def w2_def w1_def N_def)
  ultimately show ?thesis by simp
qed

section \<open>The scaling report\<close>

lemma stdout_foldl_printf: "stdout (foldl printf w ls) = stdout w @ ls"
  by (induction ls arbitrary: w) (simp_all add: printf_def)

lemma scaling_loop_8: "scaling_loop w 8 = Some (foldl printf w scaling_rows)"
  by (simp add: scaling_loop.simps scaling_rows_def scaling_sizes_def theoretical_speedup_def)

lemma show_scaling_performance_result:
  "\<exists>w'. show_scaling_performance w = Some w' \<and>
        stdout w' = stdout w @ scaling_header @ scaling_rows @ scaling_footer"
  by (simp add: show_scaling_performance_def scaling_loop_8 stdout_foldl_printf)

section \<open>The whole program\<close>

lemma main_result:
  "\<exists>w'. main clock w = Some (0, w') \<and> stdout w' = stdout w @ main_output clock (ticks w) \<and>
        live w' = live w"
proof -
  define w3 where "w3 = printf (printf (printf w (Text ''Vector Multiplication Performance Test''))
      (Text ''======================================'')) (RunningStandard VECTOR_SIZE)"
  from run_performance_test_result [of clock w3 VECTOR_SIZE] obtain w4 where
    r1: "run_performance_test clock w3 VECTOR_SIZE = Some w4"
    and o4: "stdout w4 = stdout w3 @ matching_report clock (ticks w3) VECTOR_SIZE"
    and t4: "ticks w4 = ticks w3 + 4" and l4: "live w4 = live w3"
    by blast
  define w5 where "w5 = printf w4 (RunningLarge LARGE_VECTOR_SIZE)"
  from run_performance_test_result [of clock w5 LARGE_VECTOR_SIZE] obtain w6 where
    r2: "run_performance_test clock w5 LARGE_VECTOR_SIZE = Some w6"
    and o6: "stdout w6 = stdout w5 @ matching_report clock (ticks w5) LARGE_VECTOR_SIZE"
    and l6: "live w6 = live w5"
    by blast
  define w7 where "w7 = foldl printf (the (scaling_loop (foldl printf w6 scaling_header) 8)) scaling_footer"
  have s: "show_scaling_performance w6 = Some w7"
    by (simp add: show_scaling_performance_def scaling_loop_8 w7_def)
  have l7: "live (foldl printf v ls) = live v" for v ls
    by (induction ls arbitrary: v) (simp_all add: printf_def)
  have "main clock w = Some (0, w7)"
    by (simp add: main_def r1 [unfolded w3_def] r2 [unfolded w5_def] s)
  moreover have "stdout w7 = stdout w @ main_output clock (ticks w)"
    by (simp add: w7_def scaling_loop_8 stdout_foldl_printf o6 w5_def printf_def o4 t4 w3_def
        main_output_def VECTOR_SIZE_def LARGE_VECTOR_SIZE_def)
  moreover have "live w7 = live w"
    by (simp add: w7_def scaling_loop_8 l7 l6 w5_def printf_def l4 w3_def)
  ultimately show ?thesis by simp
qed

section \<open>The test data\<close>

lemma uint_small: "0 \<le> k \<Longrightarrow> k < 100 \<Longrightarrow> uint (word_of_int (k + 1) :: data_t) = k + 1"
proof -
  assume "0 \<le> k" "k < 100"
  then have "(k + 1) mod 2 ^ 16 = k + 1"
    by simp
  then show ?thesis
    by (simp only: uint_word_of_int len_of_numeral_defs) simp
qed

lemma smod_nonneg: "0 \<le> k \<Longrightarrow> k smod 100 = k mod 100" for k :: int
  by (simp add: smod_int_alt_def sgn_if)

lemma uint_test_data_a: "0 \<le> i \<Longrightarrow> uint (test_data_a i) = i mod 100 + 1"
  unfolding test_data_a_def by (simp only: smod_nonneg) (rule uint_small, simp_all)

lemma uint_test_data_b: "i \<le> n \<Longrightarrow> uint (test_data_b n i) = (n - i) mod 100 + 1"
proof -
  assume "i \<le> n"
  then have "(n - i) smod 100 = (n - i) mod 100"
    by (intro smod_nonneg) simp
  then show ?thesis
    unfolding test_data_b_def by (simp only:) (rule uint_small, simp_all)
qed

lemma unat_test_data_bounds:
  assumes "0 \<le> i" "i \<le> n"
  shows "1 \<le> unat (test_data_a i)" "unat (test_data_a i) \<le> 100"
    "1 \<le> unat (test_data_b n i)" "unat (test_data_b n i) \<le> 100"
proof -
  have "0 \<le> i mod 100" "i mod 100 < 100" "0 \<le> (n - i) mod 100" "(n - i) mod 100 < 100"
    by simp_all
  then have "1 \<le> i mod 100 + 1 \<and> i mod 100 + 1 \<le> 100 \<and>
      1 \<le> (n - i) mod 100 + 1 \<and> (n - i) mod 100 + 1 \<le> 100"
    by linarith
  then have "1 \<le> uint (test_data_a i) \<and> uint (test_data_a i) \<le> 100 \<and>
      1 \<le> uint (test_data_b n i) \<and> uint (test_data_b n i) \<le> 100"
    using assms by (simp only: uint_test_data_a uint_test_data_b)
  moreover have "int (unat x) = uint x" for x :: data_t
    by simp
  ultimately have "1 \<le> int (unat (test_data_a i)) \<and> int (unat (test_data_a i)) \<le> 100 \<and>
      1 \<le> int (unat (test_data_b n i)) \<and> int (unat (test_data_b n i)) \<le> 100"
    by (simp only:)
  then show "1 \<le> unat (test_data_a i)" "unat (test_data_a i) \<le> 100"
    "1 \<le> unat (test_data_b n i)" "unat (test_data_b n i) \<le> 100"
    by linarith+
qed

lemma allocate_then_init:
  "case allocate_buffers w n of
     (vector_a, vector_b, hw_result, sw_result, w1) \<Rightarrow>
       init_loop w1 vector_a vector_b n 0 =
         Some (w1\<lparr>mem := test_data (mem w1) vector_a vector_b n 0\<rparr>) \<and>
       buffer w1 vector_a (nat n) \<and> buffer w1 vector_b (nat n) \<and>
       buffer w1 hw_result (nat n) \<and> buffer w1 sw_result (nat n) \<and>
       apart vector_a vector_b (nat n) \<and>
       apart hw_result vector_a (nat n) \<and> apart hw_result vector_b (nat n) \<and>
       apart sw_result vector_a (nat n) \<and> apart sw_result vector_b (nat n)"
proof -
  define w1 where "w1 = w\<lparr>live := [(brk w + 3 * (nat n + 1), nat n), (brk w + 2 * (nat n + 1), nat n),
                (brk w + (nat n + 1), nat n), (brk w, nat n)] @ live w,
        brk := brk w + 4 * (nat n + 1)\<rparr>"
  have bf: "buffer w1 (brk w) (nat n)" "buffer w1 (brk w + (nat n + 1)) (nat n)"
    "buffer w1 (brk w + 2 * (nat n + 1)) (nat n)" "buffer w1 (brk w + 3 * (nat n + 1)) (nat n)"
    by (rule buffer_live, simp add: w1_def)+
  have ap: "apart (brk w) (brk w + (nat n + 1)) (nat n)"
    by (simp add: apart_def)
  from init_loop_test_data [OF _ bf(1,2) ap, of 0] bf show ?thesis
    by (simp add: allocate_buffers_eq w1_def apart_def)
qed

lemma test_data_cells:
  assumes "apart a b (nat n)" "0 \<le> i" "i < n"
  shows "test_data m a b n 0 (a + nat i) = test_data_a i"
    "test_data m a b n 0 (b + nat i) = test_data_b n i"
  using assms by (auto simp: test_data_def apart_def)

text \<open>
  C3. Whatever the world and the size \<open>n\<close>, once the driver has allocated its buffers the
  initialisation loop returns, and for every index \<open>i\<close> in \<open>[0, n)\<close> it has left
  \<open>(i mod 100) + 1\<close> in \<open>a[i]\<close> and \<open>((n - i) mod 100) + 1\<close> in \<open>b[i]\<close>.
\<close>

theorem driver_populates_inputs:
  assumes "0 \<le> i" "i < n"
  shows "case allocate_buffers w n of
     (vector_a, vector_b, hw_result, sw_result, w1) \<Rightarrow>
       (\<exists>w2. init_loop w1 vector_a vector_b n 0 = Some w2 \<and>
          uint (mem w2 (vector_a + nat i)) = (i mod 100) + 1 \<and>
          uint (mem w2 (vector_b + nat i)) = ((n - i) mod 100) + 1)"
  using allocate_then_init [where w = w and n = n] assms
  by (auto simp: test_data_cells uint_test_data_a uint_test_data_b)

theorem driver_populates_inputs_witness:
  "case allocate_buffers example_world 250 of
     (vector_a, vector_b, hw_result, sw_result, w1) \<Rightarrow>
       (\<exists>w2. init_loop w1 vector_a vector_b 250 0 = Some w2 \<and>
          uint (mem w2 (vector_a + 130)) = 31 \<and>
          uint (mem w2 (vector_b + 130)) = 21)"
proof -
  have "(0::int) \<le> 130" "(130::int) < 250"
    by simp_all
  from driver_populates_inputs [OF this, where w = example_world] show ?thesis
    by simp
qed

section \<open>No overflow on the test data\<close>

lemma products_fit:
  assumes "1 \<le> unat x" "unat x \<le> 100" "1 \<le> unat y" "unat y \<le> 100"
  shows "unat x * unat y \<le> 10000" "unat (mul_data_t x y) = unat x * unat y"
    "mul_in_int_range x y"
proof -
  from assms have "unat x * unat y \<le> 100 * 100"
    by (intro mult_le_mono)
  then show le: "unat x * unat y \<le> 10000"
    by simp
  then show "unat (mul_data_t x y) = unat x * unat y"
    by (simp add: unat_mul_data_t)
  from le show "mul_in_int_range x y"
    by (simp add: mul_in_int_range_def)
qed

text \<open>
  C4. For every size \<open>n\<close> and every index \<open>i\<close> in \<open>[0, n)\<close>, the two values the driver
  generates for that index lie in \<open>[1, 100]\<close>, their product is at most 10000, the 16-bit
  product the kernels compute is that very number (nothing wraps, neither in the 16-bit
  result nor in the promoted \<^verbatim>\<open>int\<close>), and this is what a kernel leaves in the result
  buffer when the driver runs it on the vectors it has just initialised.
\<close>

theorem generated_products_do_not_wrap:
  assumes "0 \<le> i" "i < n"
  shows "1 \<le> unat (test_data_a i) \<and> unat (test_data_a i) \<le> 100 \<and>
     1 \<le> unat (test_data_b n i) \<and> unat (test_data_b n i) \<le> 100 \<and>
     unat (test_data_a i) * unat (test_data_b n i) \<le> 10000 \<and>
     unat (mul_data_t (test_data_a i) (test_data_b n i)) =
       unat (test_data_a i) * unat (test_data_b n i) \<and>
     mul_in_int_range (test_data_a i) (test_data_b n i) \<and>
     (case allocate_buffers w n of
       (vector_a, vector_b, hw_result, sw_result, w1) \<Rightarrow>
         (\<exists>w2 w3. init_loop w1 vector_a vector_b n 0 = Some w2 \<and>
            software_vector_multiply w2 vector_a vector_b sw_result n = Some w3 \<and>
            unat (mem w3 (sw_result + nat i)) =
              unat (mem w2 (vector_a + nat i)) * unat (mem w2 (vector_b + nat i)) \<and>
            unat (mem w3 (sw_result + nat i)) \<le> 10000))"
proof -
  from assms have "i \<le> n"
    by simp
  note b = unat_test_data_bounds [OF assms(1) this]
  note f = products_fit [OF b]
  obtain a b' h s w1 where al: "allocate_buffers w n = (a, b', h, s, w1)"
    by (cases "allocate_buffers w n") auto
  define w2 where "w2 = w1\<lparr>mem := test_data (mem w1) a b' n 0\<rparr>"
  from allocate_then_init [where w = w and n = n] al have
    i: "init_loop w1 a b' n 0 = Some w2"
    and bf: "buffer w2 a (nat n)" "buffer w2 b' (nat n)" "buffer w2 s (nat n)"
    and ap: "apart s a (nat n)" "apart s b' (nat n)" and ab: "apart a b' (nat n)"
    by (simp_all add: w2_def)
  define w3 where "w3 = w2\<lparr>mem := products (mem w2) a b' s 0 (nat n)\<rparr>"
  have k: "software_vector_multiply w2 a b' s n = Some w3"
    unfolding w3_def by (rule software_vector_multiply_products [OF bf ap])
  have c: "mem w2 (a + nat i) = test_data_a i" "mem w2 (b' + nat i) = test_data_b n i"
    using test_data_cells [OF ab assms] by (simp_all add: w2_def)
  have "mem w3 (s + nat i) = mul_data_t (test_data_a i) (test_data_b n i)"
    using assms by (simp add: w3_def products_def c)
  with f c have "unat (mem w3 (s + nat i)) =
      unat (mem w2 (a + nat i)) * unat (mem w2 (b' + nat i)) \<and>
      unat (mem w3 (s + nat i)) \<le> 10000"
    by simp
  with i k have "\<exists>w2 w3. init_loop w1 a b' n 0 = Some w2 \<and>
            software_vector_multiply w2 a b' s n = Some w3 \<and>
            unat (mem w3 (s + nat i)) =
              unat (mem w2 (a + nat i)) * unat (mem w2 (b' + nat i)) \<and>
            unat (mem w3 (s + nat i)) \<le> 10000"
    by blast
  with b f show ?thesis
    by (simp add: al)
qed

theorem generated_products_do_not_wrap_witness:
  "unat (test_data_a 99) = 100 \<and> unat (test_data_b 199 99) = 1 \<and>
   unat (test_data_a 99) * unat (test_data_b 199 99) \<le> 10000 \<and>
   unat (mul_data_t (test_data_a 99) (test_data_b 199 99)) =
     unat (test_data_a 99) * unat (test_data_b 199 99)"
proof -
  have "(0::int) \<le> 99" "(99::int) < 199"
    by simp_all
  from generated_products_do_not_wrap [OF this] show ?thesis
    by (simp add: test_data_a_def test_data_b_def smod_int_alt_def)
qed

section \<open>The two kernels agree\<close>

text \<open>
  C1. On the same memory and the same arguments, \<^verbatim>\<open>hardware_vector_multiply\<close> and
  \<^verbatim>\<open>software_vector_multiply\<close> leave the same values in memory (and fail on the same
  inputs), for every size and whatever the vectors hold. In the driver, for every size
  \<open>n \<ge> 0\<close>, a benchmark run returns and prints its five lines, ending with the line that
  says the results match, and no mismatch line.
\<close>

theorem hardware_and_software_agree:
  "map_option mem (hardware_vector_multiply sm w a b r n) =
     map_option mem (software_vector_multiply w a b r n)
   \<and> (0 \<le> n \<longrightarrow>
       (\<exists>w'. run_performance_test clock w n = Some w' \<and>
          stdout w' = stdout w @
            [VectorSize n,
             HardwareTime (clock (ticks w + 1) - clock (ticks w)),
             SoftwareTime (clock (ticks w + 3) - clock (ticks w + 2)),
             Speedup (clock (ticks w + 3) - clock (ticks w + 2))
               (clock (ticks w + 1) - clock (ticks w)),
             Results True]))"
proof -
  have "map_option mem (hardware_vector_multiply sm w a b r n) =
     map_option mem (software_vector_multiply w a b r n)"
    by (simp add: hardware_vector_multiply_sw_loop software_vector_multiply_def
        option.map_comp comp_def usleep_def)
  moreover from run_performance_test_result [of clock w n]
  have "\<exists>w'. run_performance_test clock w n = Some w' \<and>
        stdout w' = stdout w @ matching_report clock (ticks w) n"
    by blast
  ultimately show ?thesis
    by (simp add: matching_report_def)
qed

theorem hardware_and_software_agree_witness:
  "map_option mem (hardware_vector_multiply 1 example_world 0 2 4 2) =
     map_option mem (software_vector_multiply example_world 0 2 4 2)
   \<and> (\<exists>w'. run_performance_test (\<lambda>k. real k) example_world 2 = Some w' \<and>
          stdout w' =
            [VectorSize 2, HardwareTime 1, SoftwareTime 1, Speedup 1 1, Results True])"
  using hardware_and_software_agree [of 1 example_world 0 2 4 2 "\<lambda>k. real k"]
  by (simp add: example_world_def)

section \<open>The scaling table\<close>

text \<open>
  C7. Started at 8, the scaling loop returns after having printed one row for each of
  the sizes 8, 16, 32, 64, 128, 256, 512, 1024, 2048 and 4096, in this order and no other
  row, each with the value \<open>size / (1 + 8 / size)\<close>; \<^verbatim>\<open>show_scaling_performance\<close> prints
  these rows between its header and its footer. The value for 8 is 4, and the value for
  4096 is 4088 and a little less than 0.016 (in exact arithmetic: the rounding of \<^verbatim>\<open>double\<close>
  and of \<^verbatim>\<open>%.2f\<close> is not modelled).
\<close>

theorem scaling_table_rows:
  "scaling_loop w 8 =
     Some (foldl printf w
       (map (\<lambda>s. ScalingRow s (real_of_int s / (1 + 8 / real_of_int s)))
          [8, 16, 32, 64, 128, 256, 512, 1024, 2048, 4096]))
   \<and> (\<exists>w'. show_scaling_performance w = Some w' \<and>
         stdout w' = stdout w @ scaling_header
           @ map (\<lambda>s. ScalingRow s (theoretical_speedup s))
               [8, 16, 32, 64, 128, 256, 512, 1024, 2048, 4096]
           @ scaling_footer)
   \<and> theoretical_speedup 8 = 4
   \<and> 4088 < theoretical_speedup 4096 \<and> theoretical_speedup 4096 < 4088.016"
proof -
  have "scaling_loop w 8 =
     Some (foldl printf w
       (map (\<lambda>s. ScalingRow s (real_of_int s / (1 + 8 / real_of_int s)))
          [8, 16, 32, 64, 128, 256, 512, 1024, 2048, 4096]))"
    using scaling_loop_8 [of w] by (simp only: scaling_rows_def scaling_sizes_def)
  moreover have "\<exists>w'. show_scaling_performance w = Some w' \<and>
         stdout w' = stdout w @ scaling_header
           @ map (\<lambda>s. ScalingRow s (theoretical_speedup s))
               [8, 16, 32, 64, 128, 256, 512, 1024, 2048, 4096]
           @ scaling_footer"
    using show_scaling_performance_result [of w]
    by (simp add: scaling_rows_def scaling_sizes_def theoretical_speedup_def)
  moreover have "theoretical_speedup 8 = 4"
    "4088 < theoretical_speedup 4096" "theoretical_speedup 4096 < 4088.016"
    by (simp_all add: theoretical_speedup_def)
  ultimately show ?thesis by blast
qed

section \<open>The entry point\<close>


section \<open>The driver and the entry point, in segments\<close>

lemma run_performance_test_segments:
  "run_performance_test clock w n =
     do {
       (a, b, h, s, ht, st, w8) \<leftarrow> time_both_kernels clock w n;
       verify_and_report w8 a b h s n ht st
     }"
  by (simp add: run_performance_test_def time_both_kernels_def Let_def
      split: prod.splits Option.bind_splits)

lemma main_segments:
  "main clock w =
     do {
       w4 \<leftarrow> run_performance_test clock
         (printf (printf (printf w (Text ''Vector Multiplication Performance Test''))
            (Text ''======================================'')) (RunningStandard VECTOR_SIZE))
         VECTOR_SIZE;
       after_standard_run clock w4
     }"
  by (simp add: main_def after_standard_run_def after_large_run_def Let_def
      split: Option.bind_splits)

section \<open>After the kernels: verification, report, release\<close>

lemma buffer_shorter: "buffer w p n \<Longrightarrow> m \<le> n \<Longrightarrow> buffer w p m"
proof -
  assume "buffer w p n" and m: "m \<le> n"
  then obtain base len where "(base, len) \<in> set (live w)" "base \<le> p" "p + n \<le> base + len"
    unfolding buffer_def list_ex_iff by blast
  with m have "(base, len) \<in> set (live w)" "base \<le> p \<and> p + m \<le> base + len"
    by simp_all
  then show ?thesis
    unfolding buffer_def list_ex_iff by blast
qed

lemma first_difference:
  assumes "\<not> (\<forall>k. 0 \<le> k \<and> k < n \<longrightarrow> f (nat k) = g (nat k))"
  shows "\<exists>i0. 0 \<le> i0 \<and> i0 < n \<and> f (nat i0) \<noteq> g (nat i0) \<and>
           (\<forall>k. 0 \<le> k \<and> k < i0 \<longrightarrow> f (nat k) = g (nat k))"
proof -
  from assms obtain k where k: "0 \<le> k" "k < n" "f (nat k) \<noteq> g (nat k)"
    by blast
  define j where "j = (LEAST j. f j \<noteq> g j)"
  have d: "f j \<noteq> g j"
    unfolding j_def using k(3) by (rule LeastI)
  have le: "j \<le> nat k"
    unfolding j_def using k(3) by (rule Least_le)
  have below: "f j' = g j'" if "j' < j" for j'
    using not_less_Least [of j' "\<lambda>j. f j \<noteq> g j"] that by (simp add: j_def)
  have "0 \<le> int j" "int j < n"
    using le k by linarith+
  moreover have "f (nat (int j)) \<noteq> g (nat (int j))"
    using d by simp
  moreover have "\<forall>k. 0 \<le> k \<and> k < int j \<longrightarrow> f (nat k) = g (nat k)"
  proof (intro allI impI)
    fix k assume "0 \<le> k \<and> k < int j"
    then have "nat k < j" by linarith
    then show "f (nat k) = g (nat k)" by (rule below)
  qed
  ultimately show ?thesis by blast
qed

lemma report_and_release:
  assumes "live w1 = [(s, nat n), (h, nat n), (b, nat n), (a, nat n)] @ L"
    and "a \<noteq> b" "a \<noteq> h" "a \<noteq> s" "b \<noteq> h" "b \<noteq> s" "h \<noteq> s"
  shows "\<exists>w'. free_buffers (print_results w1 n ht st m) a b h s = Some w' \<and>
      stdout w' = stdout w1 @
        [VectorSize n, HardwareTime ht, SoftwareTime st, Speedup st ht, Results (m \<noteq> 0)] \<and>
      ticks w' = ticks w1 \<and> live w' = L"
proof -
  have "live (print_results w1 n ht st m) = [(s, nat n), (h, nat n), (b, nat n), (a, nat n)] @ L"
    using assms(1) by (simp add: print_results_def printf_def)
  from free_buffers_fresh [OF this assms(2-7)] show ?thesis
    by (simp add: print_results_def printf_def)
qed

lemma verify_and_report_matching:
  assumes l: "live w = [(s, nat n), (h, nat n), (b, nat n), (a, nat n)] @ L"
    and ne: "a \<noteq> b" "a \<noteq> h" "a \<noteq> s" "b \<noteq> h" "b \<noteq> s" "h \<noteq> s"
    and eq: "\<forall>k. 0 \<le> k \<and> k < n \<longrightarrow> mem w (h + nat k) = mem w (s + nat k)"
  shows "\<exists>w'. verify_and_report w a b h s n ht st = Some w' \<and>
      stdout w' = stdout w @
        [VectorSize n, HardwareTime ht, SoftwareTime st, Speedup st ht, Results True] \<and>
      ticks w' = ticks w \<and> live w' = L"
proof -
  have bf: "buffer w h (nat n)" "buffer w s (nat n)"
    by (rule buffer_live, simp add: l)+
  have v: "verify_loop w h s n 1 0 = Some (1, w)"
    using bf eq by (intro verify_loop_all_equal) simp_all
  from report_and_release [OF l ne, of ht st 1] show ?thesis
    by (simp add: verify_and_report_def v)
qed

lemma verify_and_report_mismatching:
  assumes l: "live w = [(s, nat n), (h, nat n), (b, nat n), (a, nat n)] @ L"
    and ne: "a \<noteq> b" "a \<noteq> h" "a \<noteq> s" "b \<noteq> h" "b \<noteq> s" "h \<noteq> s"
    and i0: "0 \<le> i0" "i0 < n" "mem w (h + nat i0) \<noteq> mem w (s + nat i0)"
      "\<forall>k. 0 \<le> k \<and> k < i0 \<longrightarrow> mem w (h + nat k) = mem w (s + nat k)"
  shows "\<exists>w'. verify_and_report w a b h s n ht st = Some w' \<and>
      stdout w' = stdout w @
        [Mismatch i0 (uint (mem w (h + nat i0))) (uint (mem w (s + nat i0))),
         VectorSize n, HardwareTime ht, SoftwareTime st, Speedup st ht, Results False] \<and>
      ticks w' = ticks w \<and> live w' = L"
proof -
  define ln where "ln = Mismatch i0 (uint (mem w (h + nat i0))) (uint (mem w (s + nat i0)))"
  have "buffer w h (nat n)" "buffer w s (nat n)"
    by (rule buffer_live, simp add: l)+
  moreover have "nat i0 + 1 \<le> nat n"
    using i0 by simp
  ultimately have bf: "buffer w h (nat i0 + 1)" "buffer w s (nat i0 + 1)"
    by (auto intro: buffer_shorter)
  have v: "verify_loop w h s n 1 0 = Some (0, printf w ln)"
    unfolding ln_def using i0 by (intro verify_loop_first_mismatch bf) simp_all
  have "live (printf w ln) = [(s, nat n), (h, nat n), (b, nat n), (a, nat n)] @ L"
    using l by (simp add: printf_def)
  from report_and_release [OF this ne, of ht st 0] show ?thesis
    by (simp add: verify_and_report_def v printf_def ln_def)
qed

section \<open>What is left of the program after a benchmark\<close>

lemma after_large_run_result:
  "\<exists>w'. after_large_run w = Some (0, w') \<and>
        stdout w' = stdout w @ scaling_header @ scaling_rows @ scaling_footer"
  using show_scaling_performance_result [of w]
  by (auto simp: after_large_run_def)

lemma after_standard_run_result:
  "\<exists>w'. after_standard_run clock w = Some (0, w') \<and>
        stdout w' = stdout w @ [RunningLarge 1024] @ matching_report clock (ticks w) 1024
          @ scaling_header @ scaling_rows @ scaling_footer"
proof -
  define w5 where "w5 = printf w (RunningLarge LARGE_VECTOR_SIZE)"
  from run_performance_test_result [of clock w5 LARGE_VECTOR_SIZE] obtain w6 where
    r: "run_performance_test clock w5 LARGE_VECTOR_SIZE = Some w6"
    and o: "stdout w6 = stdout w5 @ matching_report clock (ticks w5) LARGE_VECTOR_SIZE"
    by blast
  from after_large_run_result [of w6] obtain w7 where
    a: "after_large_run w6 = Some (0, w7)"
    and o7: "stdout w7 = stdout w6 @ scaling_header @ scaling_rows @ scaling_footer"
    by blast
  have "after_standard_run clock w = Some (0, w7)"
    by (simp add: after_standard_run_def r [unfolded w5_def] a)
  moreover have "stdout w7 = stdout w @ [RunningLarge 1024] @ matching_report clock (ticks w) 1024
          @ scaling_header @ scaling_rows @ scaling_footer"
    by (simp add: o7 o w5_def printf_def LARGE_VECTOR_SIZE_def)
  ultimately show ?thesis by blast
qed

section \<open>A mismatch does not stop the program\<close>

text \<open>
  C6. \<^verbatim>\<open>run_performance_test\<close> is its first part followed by \<open>verify_and_report\<close>, and
  \<^verbatim>\<open>main\<close> is the first benchmark followed by \<open>after_standard_run\<close>, which is the second
  benchmark followed by \<open>after_large_run\<close>. Take the driver at the point where both kernels
  have run, with its four buffers allocated and holding anything at all. If the result
  vectors agree it prints its five lines, the last one saying that they match; if they
  differ and \<open>i0\<close> is the lowest index where they do, it prints the mismatch at \<open>i0\<close> and then
  the same five lines, the last one saying that they do not match. In both cases it frees
  its buffers and returns, and from the world it returns the rest of \<^verbatim>\<open>main\<close> runs to its
  end with the status 0: the second benchmark and the scaling table if this was the first
  benchmark, the scaling table if it was the second. And \<^verbatim>\<open>main\<close> as a whole returns the
  status 0 after all its output, for every clock and every initial world.
\<close>

theorem mismatch_does_not_abort:
  "run_performance_test clock w0 n0 =
     do {
       (a', b', h', s', ht', st', w8) \<leftarrow> time_both_kernels clock w0 n0;
       verify_and_report w8 a' b' h' s' n0 ht' st'
     }
   \<and> main clock w0 =
     do {
       w4 \<leftarrow> run_performance_test clock
         (printf (printf (printf w0 (Text ''Vector Multiplication Performance Test''))
            (Text ''======================================'')) (RunningStandard VECTOR_SIZE))
         VECTOR_SIZE;
       after_standard_run clock w4
     }
   \<and> after_standard_run clock w0 =
     do {
       w6 \<leftarrow> run_performance_test clock (printf w0 (RunningLarge LARGE_VECTOR_SIZE))
         LARGE_VECTOR_SIZE;
       after_large_run w6
     }
   \<and> (live w = [(s, nat n), (h, nat n), (b, nat n), (a, nat n)] @ L \<and> distinct [a, b, h, s]
     \<longrightarrow> (\<exists>w' ms m.
            verify_and_report w a b h s n ht st = Some w' \<and>
            stdout w' = stdout w @ ms @
              [VectorSize n, HardwareTime ht, SoftwareTime st, Speedup st ht, Results m] \<and>
            live w' = L \<and>
            ((\<forall>k. 0 \<le> k \<and> k < n \<longrightarrow> mem w (h + nat k) = mem w (s + nat k)) \<and> ms = [] \<and> m
             \<or> (\<exists>i0. 0 \<le> i0 \<and> i0 < n \<and> mem w (h + nat i0) \<noteq> mem w (s + nat i0) \<and>
                   (\<forall>k. 0 \<le> k \<and> k < i0 \<longrightarrow> mem w (h + nat k) = mem w (s + nat k)) \<and>
                   ms = [Mismatch i0 (uint (mem w (h + nat i0))) (uint (mem w (s + nat i0)))] \<and>
                   \<not> m)) \<and>
            (\<exists>w''. after_standard_run clock w' = Some (0, w'') \<and>
               stdout w'' = stdout w' @ [RunningLarge 1024]
                 @ matching_report clock (ticks w) 1024
                 @ scaling_header @ scaling_rows @ scaling_footer) \<and>
            (\<exists>w''. after_large_run w' = Some (0, w'') \<and>
               stdout w'' = stdout w' @ scaling_header @ scaling_rows @ scaling_footer)))
   \<and> (\<exists>w'. main clock w0 = Some (0, w') \<and> stdout w' = stdout w0 @ main_output clock (ticks w0))"
proof -
  have tail: "\<exists>w' ms m.
            verify_and_report w a b h s n ht st = Some w' \<and>
            stdout w' = stdout w @ ms @
              [VectorSize n, HardwareTime ht, SoftwareTime st, Speedup st ht, Results m] \<and>
            live w' = L \<and>
            ((\<forall>k. 0 \<le> k \<and> k < n \<longrightarrow> mem w (h + nat k) = mem w (s + nat k)) \<and> ms = [] \<and> m
             \<or> (\<exists>i0. 0 \<le> i0 \<and> i0 < n \<and> mem w (h + nat i0) \<noteq> mem w (s + nat i0) \<and>
                   (\<forall>k. 0 \<le> k \<and> k < i0 \<longrightarrow> mem w (h + nat k) = mem w (s + nat k)) \<and>
                   ms = [Mismatch i0 (uint (mem w (h + nat i0))) (uint (mem w (s + nat i0)))] \<and>
                   \<not> m)) \<and>
            (\<exists>w''. after_standard_run clock w' = Some (0, w'') \<and>
               stdout w'' = stdout w' @ [RunningLarge 1024]
                 @ matching_report clock (ticks w) 1024
                 @ scaling_header @ scaling_rows @ scaling_footer) \<and>
            (\<exists>w''. after_large_run w' = Some (0, w'') \<and>
               stdout w'' = stdout w' @ scaling_header @ scaling_rows @ scaling_footer)"
    if l: "live w = [(s, nat n), (h, nat n), (b, nat n), (a, nat n)] @ L"
      and d: "distinct [a, b, h, s]"
  proof -
    from d have ne: "a \<noteq> b" "a \<noteq> h" "a \<noteq> s" "b \<noteq> h" "b \<noteq> s" "h \<noteq> s"
      by auto
    show ?thesis
    proof (cases "\<forall>k. 0 \<le> k \<and> k < n \<longrightarrow> mem w (h + nat k) = mem w (s + nat k)")
      case True
      from verify_and_report_matching [OF l ne True, of ht st] obtain w' where
        r: "verify_and_report w a b h s n ht st = Some w'"
        and o: "stdout w' = stdout w @ [] @
          [VectorSize n, HardwareTime ht, SoftwareTime st, Speedup st ht, Results True]"
        and t: "ticks w' = ticks w" and lw: "live w' = L"
        by auto
      from after_standard_run_result [of clock w'] after_large_run_result [of w'] r o lw True
      show ?thesis
        unfolding t by blast
    next
      case False
      from first_difference [of n "\<lambda>j. mem w (h + j)" "\<lambda>j. mem w (s + j)", OF False]
      obtain i0 where i0: "0 \<le> i0" "i0 < n" "mem w (h + nat i0) \<noteq> mem w (s + nat i0)"
        "\<forall>k. 0 \<le> k \<and> k < i0 \<longrightarrow> mem w (h + nat k) = mem w (s + nat k)"
        by blast
      from verify_and_report_mismatching [OF l ne i0, of ht st] obtain w' where
        r: "verify_and_report w a b h s n ht st = Some w'"
        and o: "stdout w' = stdout w @
          [Mismatch i0 (uint (mem w (h + nat i0))) (uint (mem w (s + nat i0)))] @
          [VectorSize n, HardwareTime ht, SoftwareTime st, Speedup st ht, Results False]"
        and t: "ticks w' = ticks w" and lw: "live w' = L"
        by auto
      from after_standard_run_result [of clock w'] after_large_run_result [of w'] r o lw i0
      show ?thesis
        unfolding t by blast
    qed
  qed
  have "\<exists>w'. main clock w0 = Some (0, w') \<and> stdout w' = stdout w0 @ main_output clock (ticks w0)"
    using main_result [of clock w0] by blast
  moreover have "after_standard_run clock w0 =
     do {
       w6 \<leftarrow> run_performance_test clock (printf w0 (RunningLarge LARGE_VECTOR_SIZE))
         LARGE_VECTOR_SIZE;
       after_large_run w6
     }"
    by (simp add: after_standard_run_def)
  ultimately show ?thesis
    using tail run_performance_test_segments [of clock w0 n0] main_segments [of clock w0]
    by blast
qed

theorem mismatch_does_not_abort_witness:
  "\<exists>w' w''.
      verify_and_report faulty_world 0 3 6 9 2 5 7 = Some w' \<and>
      stdout w' = [Mismatch 0 1 2, VectorSize 2, HardwareTime 5, SoftwareTime 7, Speedup 7 5,
                   Results False] \<and>
      after_standard_run (\<lambda>k. real k) w' = Some (0, w'') \<and>
      stdout w'' = stdout w' @ [RunningLarge 1024]
        @ [VectorSize 1024, HardwareTime 1, SoftwareTime 1, Speedup 1 1, Results True]
        @ scaling_header @ scaling_rows @ scaling_footer"
proof -
  have l: "live faulty_world = [(9, nat 2), (6, nat 2), (3, nat 2), (0, nat 2)] @ [] \<and>
    distinct [0, 3, 6, 9 :: nat]"
    by (simp add: faulty_world_def)
  have d: "mem faulty_world (6 + nat 0) \<noteq> mem faulty_world (9 + nat 0)"
    by (simp add: faulty_world_def)
  from mismatch_does_not_abort
    [of "\<lambda>k. real k" faulty_world 2 faulty_world 9 2 6 3 0 "[]" 5 7] l
  obtain w' ms m w'' where
    r: "verify_and_report faulty_world 0 3 6 9 2 5 7 = Some w'"
    and o: "stdout w' = stdout faulty_world @ ms @
              [VectorSize 2, HardwareTime 5, SoftwareTime 7, Speedup 7 5, Results m]"
    and c: "(\<forall>k. 0 \<le> k \<and> k < 2 \<longrightarrow>
               mem faulty_world (6 + nat k) = mem faulty_world (9 + nat k)) \<and> ms = [] \<and> m
          \<or> (\<exists>i0. 0 \<le> i0 \<and> i0 < 2 \<and>
                mem faulty_world (6 + nat i0) \<noteq> mem faulty_world (9 + nat i0) \<and>
                (\<forall>k. 0 \<le> k \<and> k < i0 \<longrightarrow>
                   mem faulty_world (6 + nat k) = mem faulty_world (9 + nat k)) \<and>
                ms = [Mismatch i0 (uint (mem faulty_world (6 + nat i0)))
                        (uint (mem faulty_world (9 + nat i0)))] \<and>
                \<not> m)"
    and a: "after_standard_run (\<lambda>k. real k) w' = Some (0, w'')"
    and o2: "stdout w'' = stdout w' @ [RunningLarge 1024]
                 @ matching_report (\<lambda>k. real k) (ticks faulty_world) 1024
                 @ scaling_header @ scaling_rows @ scaling_footer"
    by blast
  have "ms = [Mismatch 0 1 2] \<and> \<not> m"
  proof -
    have "\<not> (\<forall>k. 0 \<le> k \<and> k < 2 \<longrightarrow>
               mem faulty_world (6 + nat k) = mem faulty_world (9 + nat k))"
      using d by (intro notI) (drule spec [of _ 0], simp)
    with c obtain i0 where i0: "0 \<le> i0"
      "\<forall>k. 0 \<le> k \<and> k < i0 \<longrightarrow>
         mem faulty_world (6 + nat k) = mem faulty_world (9 + nat k)"
      "ms = [Mismatch i0 (uint (mem faulty_world (6 + nat i0)))
              (uint (mem faulty_world (9 + nat i0)))]" "\<not> m"
      by blast
    have "i0 = 0"
    proof (rule ccontr)
      assume "i0 \<noteq> 0"
      with i0(1) have "0 \<le> (0::int) \<and> 0 < i0" by simp
      with i0(2) have "mem faulty_world (6 + nat 0) = mem faulty_world (9 + nat 0)"
        by blast
      with d show False by contradiction
    qed
    with i0(3,4) show ?thesis
      by (simp add: faulty_world_def)
  qed
  with o have "stdout w' = [Mismatch 0 1 2, VectorSize 2, HardwareTime 5, SoftwareTime 7,
      Speedup 7 5, Results False]"
    by (simp add: faulty_world_def)
  moreover from o2 have "stdout w'' = stdout w' @ [RunningLarge 1024]
        @ [VectorSize 1024, HardwareTime 1, SoftwareTime 1, Speedup 1 1, Results True]
        @ scaling_header @ scaling_rows @ scaling_footer"
    by (simp add: matching_report_def faulty_world_def)
  ultimately show ?thesis
    using r a by blast
qed

end
